theory Spec2Isabelle
  imports Main "HOL-Library.Word"
begin

unbundle bit_operations_syntax

section \<open>Data model (ssd1306.h, fonts.h)\<close>

text \<open>
  Status codes returned by the driver functions of \<^verbatim>\<open>ssd1306.c\<close>. The success code is
  written \<^verbatim>\<open>LCD_OK\<close> in the C file (\<^verbatim>\<open>SSD1306_OK\<close> in the header); the codes are only
  returned and compared, never computed with.
\<close>

datatype SSD1306_status_t = LCD_OK | I2C_ERROR | INVALID_PARAMS | NO_INIT

text \<open>
  \<^verbatim>\<open>SSD1306_color_t\<close> is a C enumeration, so a variable of that type may hold values other
  than the two enumerators; the driver has \<^verbatim>\<open>default:\<close> branches for them. It is therefore a
  machine integer here. Only comparison with 0 and 1 and logical negation are applied to it,
  so the width of the underlying integer type does not matter.
\<close>

type_synonym SSD1306_color_t = "8 word"

definition SSD1306_COLOR_BLACK :: SSD1306_color_t where
  "SSD1306_COLOR_BLACK = 0"

definition SSD1306_COLOR_WHITE :: SSD1306_color_t where
  "SSD1306_COLOR_WHITE = 1"

text \<open>C's logical negation \<^verbatim>\<open>!c\<close>, converted back to the operand's type.\<close>

definition lnot :: "8 word \<Rightarrow> 8 word" where
  "lnot c = (if c = 0 then 1 else 0)"

definition SSD1306_WIDTH :: nat where
  "SSD1306_WIDTH = 128"

definition SSD1306_HEIGHT :: nat where
  "SSD1306_HEIGHT = 64"

definition SSD1306_I2C_ADDR :: "8 word" where
  "SSD1306_I2C_ADDR = 0x78"

definition SSD1306_I2C_DATATMP_SIZE :: nat where
  "SSD1306_I2C_DATATMP_SIZE = 256"

definition SSD1306_DEACTIVATE_SCROLL :: "8 word" where
  "SSD1306_DEACTIVATE_SCROLL = 0x2E"

definition SSD1306_NORMALDISPLAY :: "8 word" where
  "SSD1306_NORMALDISPLAY = 0xA6"

definition SSD1306_INVERTDISPLAY :: "8 word" where
  "SSD1306_INVERTDISPLAY = 0xA7"

text \<open>
  One frame handed to \<^verbatim>\<open>HAL_I2C_Master_Transmit\<close>: the peripheral handle, the slave address
  and the bytes sent. The HAL is outside the repository; the model records the frames in
  the order they are issued. The driver ignores the HAL's return value.
\<close>

type_synonym i2c_frame = "nat \<times> 8 word \<times> 8 word list"

text \<open>
  The file-scope objects of \<^verbatim>\<open>ssd1306.c\<close>: the fields of the structure \<^verbatim>\<open>SSD1306\<close>
  (type \<^verbatim>\<open>SSD1306_t\<close>), the array \<^verbatim>\<open>SSD1306_Buffer\<close> of
  \<^verbatim>\<open>SSD1306_WIDTH * SSD1306_HEIGHT / 8\<close> = 1024 bytes, and the bus traffic so far.
  The scratch array \<^verbatim>\<open>data_tmp\<close> is written and handed to the HAL within one call and never
  read afterwards, so the bytes transmitted are recorded in the frame instead.
\<close>

record SSD1306_state =
  i2c_ptr :: nat
  currentX :: "16 word"
  currentY :: "16 word"
  inverted :: "8 word"
  initialized :: "8 word"
  SSD1306_Buffer :: "8 word list"
  i2c_bus :: "i2c_frame list"

text \<open>Objects with static storage duration start zeroed.\<close>

definition power_on :: SSD1306_state where
  "power_on = \<lparr> i2c_ptr = 0, currentX = 0, currentY = 0, inverted = 0, initialized = 0,
                SSD1306_Buffer = replicate 1024 0, i2c_bus = [] \<rparr>"

text \<open>
  \<^verbatim>\<open>FontDef_t\<close>. The glyph table is reached through a pointer without a length; \<open>data\<close>
  gives the 16-bit word found at each index from that pointer.
\<close>

record FontDef_t =
  fontWidth :: "8 word"
  fontHeight :: "8 word"
  data :: "int \<Rightarrow> 16 word"

section \<open>I2C communication functions\<close>

text \<open>
  \<^verbatim>\<open>SSD1306_I2C_WriteMulti\<close> returns \<^verbatim>\<open>void\<close>. \<open>dat\<close> holds the bytes found at the pointer
  \<^verbatim>\<open>data\<close>; the frame is the control byte followed by the first \<open>count\<close> of them. (With
  \<open>count\<close> = 256 the C code copies one byte past the end of \<^verbatim>\<open>data_tmp\<close>; the driver never
  asks for more than 128.)
\<close>

definition SSD1306_I2C_WriteMulti ::
  "8 word \<Rightarrow> 8 word \<Rightarrow> 8 word list \<Rightarrow> 16 word \<Rightarrow> SSD1306_state \<Rightarrow> SSD1306_state" where
  "SSD1306_I2C_WriteMulti addr reg dat count s =
     (if unat count > SSD1306_I2C_DATATMP_SIZE then s
      else s\<lparr>i2c_bus := i2c_bus s @ [(i2c_ptr s, addr, reg # take (unat count) dat)]\<rparr>)"

definition SSD1306_I2C_Write ::
  "8 word \<Rightarrow> 8 word \<Rightarrow> 8 word \<Rightarrow> SSD1306_state \<Rightarrow> SSD1306_state" where
  "SSD1306_I2C_Write addr reg dat s =
     s\<lparr>i2c_bus := i2c_bus s @ [(i2c_ptr s, addr, [reg, dat])]\<rparr>"

definition SSD1306_WRITECOMMAND :: "8 word \<Rightarrow> SSD1306_state \<Rightarrow> SSD1306_state" where
  "SSD1306_WRITECOMMAND command s = SSD1306_I2C_Write SSD1306_I2C_ADDR 0x00 command s"

section \<open>Driver functions\<close>

definition SSD1306_fill :: "SSD1306_color_t \<Rightarrow> SSD1306_state \<Rightarrow> SSD1306_status_t \<times> SSD1306_state" where
  "SSD1306_fill color s =
     (if initialized s = 0 then (NO_INIT, s)
      else if color = SSD1306_COLOR_BLACK then
        (LCD_OK, s\<lparr>SSD1306_Buffer := replicate (SSD1306_WIDTH * SSD1306_HEIGHT div 8) 0x00\<rparr>)
      else if color = SSD1306_COLOR_WHITE then
        (LCD_OK, s\<lparr>SSD1306_Buffer := replicate (SSD1306_WIDTH * SSD1306_HEIGHT div 8) 0xFF\<rparr>)
      else (INVALID_PARAMS, s))"

text \<open>The page loop of \<^verbatim>\<open>SSD1306_updateScreen\<close>, \<^verbatim>\<open>for (uint8_t m = 0; m < 8; m++)\<close>.\<close>

function updateScreen_loop :: "8 word \<Rightarrow> SSD1306_state \<Rightarrow> SSD1306_state" where
  "updateScreen_loop m s =
     (if m < 8 then
        (let s1 = SSD1306_WRITECOMMAND (0xB0 + m) s;
             s2 = SSD1306_WRITECOMMAND 0x00 s1;
             s3 = SSD1306_WRITECOMMAND 0x10 s2;
             s4 = SSD1306_I2C_WriteMulti SSD1306_I2C_ADDR 0x40
                    (drop (SSD1306_WIDTH * unat m) (SSD1306_Buffer s3)) (word_of_nat SSD1306_WIDTH) s3
         in updateScreen_loop (m + 1) s4)
      else s)"
  by pat_completeness auto
termination
  by (relation "measure (\<lambda>(m, s). 8 - unat m)") (auto simp: word_less_nat_alt unat_word_ariths)

definition SSD1306_updateScreen :: "SSD1306_state \<Rightarrow> SSD1306_status_t \<times> SSD1306_state" where
  "SSD1306_updateScreen s =
     (if initialized s = 0 then (NO_INIT, s) else (LCD_OK, updateScreen_loop 0 s))"

definition SSD1306_clear :: "SSD1306_state \<Rightarrow> SSD1306_status_t \<times> SSD1306_state" where
  "SSD1306_clear s =
     (if initialized s = 0 then (NO_INIT, s)
      else (let s1 = snd (SSD1306_fill SSD1306_COLOR_BLACK s);
                s2 = snd (SSD1306_updateScreen s1)
            in (LCD_OK, s2)))"

definition SSD1306_invertDisplay :: "8 word \<Rightarrow> SSD1306_state \<Rightarrow> SSD1306_status_t \<times> SSD1306_state" where
  "SSD1306_invertDisplay is_inverted s =
     (if initialized s = 0 then (NO_INIT, s)
      else if is_inverted \<noteq> 0 then (LCD_OK, SSD1306_WRITECOMMAND SSD1306_INVERTDISPLAY s)
      else (LCD_OK, SSD1306_WRITECOMMAND SSD1306_NORMALDISPLAY s))"

text \<open>
  The bring-up opcodes of \<^verbatim>\<open>SSD1306_init\<close>, in the order of the
  \<^verbatim>\<open>SSD1306_WRITECOMMAND\<close> calls; the last one is \<^verbatim>\<open>SSD1306_DEACTIVATE_SCROLL\<close>.
\<close>

definition init_commands :: "8 word list" where
  "init_commands =
     [0xAE, 0x20, 0x10, 0xB0, 0xC8, 0x00, 0x10, 0x40, 0x81, 0xFF, 0xA1, 0xA6, 0xA8, 0x3F,
      0xA4, 0xD3, 0x00, 0xD5, 0xF0, 0xD9, 0x22, 0xDA, 0x12, 0xDB, 0x20, 0x8D, 0x14, 0xAF,
      SSD1306_DEACTIVATE_SCROLL]"

text \<open>
  \<^verbatim>\<open>SSD1306_init\<close>. \<open>ready\<close> tells whether \<^verbatim>\<open>HAL_I2C_IsDeviceReady\<close> answered
  \<^verbatim>\<open>HAL_OK\<close>; \<^verbatim>\<open>HAL_Delay\<close> changes nothing the driver can see. The status of the call
  to \<^verbatim>\<open>SSD1306_clear\<close> is dropped, as in the C code.
\<close>

definition SSD1306_init :: "nat \<Rightarrow> bool \<Rightarrow> SSD1306_state \<Rightarrow> SSD1306_status_t \<times> SSD1306_state" where
  "SSD1306_init i2c ready s =
     (let s0 = s\<lparr>i2c_ptr := i2c, currentX := 0, currentY := 0, initialized := 0\<rparr>
      in if \<not> ready then (I2C_ERROR, s0)
         else (let s1 = fold SSD1306_WRITECOMMAND init_commands s0;
                   s2 = snd (SSD1306_clear s1)
               in (LCD_OK, s2\<lparr>initialized := 1\<rparr>)))"

text \<open>The byte loop of \<^verbatim>\<open>SSD1306_toggleInvert\<close>, \<^verbatim>\<open>for (uint32_t i = 0; i < sizeof(SSD1306_Buffer); i++)\<close>.\<close>

function toggleInvert_loop :: "32 word \<Rightarrow> 8 word list \<Rightarrow> 8 word list" where
  "toggleInvert_loop i buf =
     (if unat i < SSD1306_WIDTH * SSD1306_HEIGHT div 8
      then toggleInvert_loop (i + 1) (buf[unat i := NOT (buf ! unat i)])
      else buf)"
  by pat_completeness auto
termination
  by (relation "measure (\<lambda>(i, buf). 1024 - unat i)")
     (auto simp: SSD1306_WIDTH_def SSD1306_HEIGHT_def unat_word_ariths)

definition SSD1306_toggleInvert :: "SSD1306_state \<Rightarrow> SSD1306_status_t \<times> SSD1306_state" where
  "SSD1306_toggleInvert s =
     (if initialized s = 0 then (NO_INIT, s)
      else (LCD_OK, s\<lparr>SSD1306_Buffer := toggleInvert_loop 0 (SSD1306_Buffer s),
                       inverted := lnot (inverted s)\<rparr>))"

text \<open>
  \<^verbatim>\<open>SSD1306_drawPixel\<close>. The index \<^verbatim>\<open>x + (y >> 3) * SSD1306_WIDTH\<close> is computed in
  \<^verbatim>\<open>int\<close> and cannot overflow; the bit operations are those of the \<^verbatim>\<open>uint8_t\<close>
  element after the assignment truncates.
\<close>

definition SSD1306_drawPixel ::
  "16 word \<Rightarrow> 16 word \<Rightarrow> SSD1306_color_t \<Rightarrow> SSD1306_state \<Rightarrow> SSD1306_status_t \<times> SSD1306_state" where
  "SSD1306_drawPixel x y color s =
     (if unat x \<ge> SSD1306_WIDTH \<or> unat y \<ge> SSD1306_HEIGHT then (INVALID_PARAMS, s)
      else (let color1 = (if inverted s \<noteq> 0 then lnot color else color);
                idx = unat x + unat (drop_bit 3 y) * SSD1306_WIDTH;
                b = SSD1306_Buffer s ! idx
            in if color1 = SSD1306_COLOR_WHITE then
                 (LCD_OK, s\<lparr>SSD1306_Buffer :=
                    (SSD1306_Buffer s)[idx := b OR push_bit (unat (y AND 0x07)) 1]\<rparr>)
               else if color1 = SSD1306_COLOR_BLACK then
                 (LCD_OK, s\<lparr>SSD1306_Buffer :=
                    (SSD1306_Buffer s)[idx := b AND NOT (push_bit (unat (y AND 0x07)) 1)]\<rparr>)
               else (INVALID_PARAMS, s)))"

definition SSD1306_gotoXY :: "16 word \<Rightarrow> 16 word \<Rightarrow> SSD1306_state \<Rightarrow> SSD1306_status_t \<times> SSD1306_state" where
  "SSD1306_gotoXY x y s =
     (if unat x \<ge> SSD1306_WIDTH \<or> unat y \<ge> SSD1306_HEIGHT then (INVALID_PARAMS, s)
      else (LCD_OK, s\<lparr>currentX := x, currentY := y\<rparr>))"

text \<open>
  The column loop of \<^verbatim>\<open>SSD1306_putc\<close>, \<^verbatim>\<open>for (uint8_t j = 0; j < font->fontWidth; j++)\<close>,
  for the glyph row \<open>b\<close> at row index \<open>i\<close>. The coordinates
  \<^verbatim>\<open>SSD1306.currentX + j\<close> and \<^verbatim>\<open>SSD1306.currentY + i\<close> are computed in \<^verbatim>\<open>int\<close> and
  converted to \<^verbatim>\<open>uint16_t\<close>, which is addition of 16-bit words. The test
  \<^verbatim>\<open>(b << j) & 0x8000\<close> shifts the promoted 32-bit value; a shift by 32 or more yields 0
  on the target. The status of \<^verbatim>\<open>SSD1306_drawPixel\<close> is dropped, as in the C code.
\<close>

function putc_col_loop ::
  "8 word \<Rightarrow> 16 word \<Rightarrow> 8 word \<Rightarrow> FontDef_t \<Rightarrow> SSD1306_color_t \<Rightarrow> SSD1306_state \<Rightarrow> SSD1306_state" where
  "putc_col_loop j b i font color s =
     (if j < fontWidth font then
        putc_col_loop (j + 1) b i font color
          (if push_bit (unat j) (ucast b :: 32 word) AND 0x8000 \<noteq> 0
           then snd (SSD1306_drawPixel (currentX s + ucast j) (currentY s + ucast i) color s)
           else snd (SSD1306_drawPixel (currentX s + ucast j) (currentY s + ucast i) (lnot color) s))
      else s)"
  by pat_completeness auto
termination
proof (relation "measure (\<lambda>(j, b, i, font, color, s). unat (fontWidth font) - unat j)")
  fix j :: "8 word" and font :: FontDef_t
  assume "j < fontWidth font"
  then have "unat j < unat (fontWidth font)" by (simp add: word_less_nat_alt)
  moreover have "unat (fontWidth font) < 256"
    using unsigned_less[of "fontWidth font", where ?'a=nat] by simp
  ultimately have "unat (fontWidth font) - unat (j + 1) < unat (fontWidth font) - unat j"
    by (simp add: unat_word_ariths)
  then show "((j + 1, b, i, font, color, s'), (j, b, i, font, color, s))
      \<in> measure (\<lambda>(j, b, i, font, color, s). unat (fontWidth font) - unat j)"
    for b :: "16 word" and i :: "8 word" and color :: SSD1306_color_t and s s' :: SSD1306_state
    by simp
qed simp

text \<open>
  The row loop of \<^verbatim>\<open>SSD1306_putc\<close>, \<^verbatim>\<open>for (uint8_t i = 0; i < font->fontHeight; i++)\<close>.
  The table index \<^verbatim>\<open>(ch - 32) * font->fontHeight + i\<close> is computed in \<^verbatim>\<open>int\<close>; plain
  \<^verbatim>\<open>char\<close> is unsigned on the ARM targets of the driver.
\<close>

function putc_row_loop ::
  "8 word \<Rightarrow> 8 word \<Rightarrow> FontDef_t \<Rightarrow> SSD1306_color_t \<Rightarrow> SSD1306_state \<Rightarrow> SSD1306_state" where
  "putc_row_loop i ch font color s =
     (if i < fontHeight font then
        (let b = data font ((uint ch - 32) * uint (fontHeight font) + uint i)
         in putc_row_loop (i + 1) ch font color (putc_col_loop 0 b i font color s))
      else s)"
  by pat_completeness auto
termination
proof (relation "measure (\<lambda>(i, ch, font, color, s). unat (fontHeight font) - unat i)")
  fix i :: "8 word" and font :: FontDef_t
  assume "i < fontHeight font"
  then have "unat i < unat (fontHeight font)" by (simp add: word_less_nat_alt)
  moreover have "unat (fontHeight font) < 256"
    using unsigned_less[of "fontHeight font", where ?'a=nat] by simp
  ultimately have "unat (fontHeight font) - unat (i + 1) < unat (fontHeight font) - unat i"
    by (simp add: unat_word_ariths)
  then show "((i + 1, ch, font, color, s'), (i, ch, font, color, s))
      \<in> measure (\<lambda>(i, ch, font, color, s). unat (fontHeight font) - unat i)"
    for ch :: "8 word" and color :: SSD1306_color_t and s s' :: SSD1306_state
    by simp
qed simp

definition SSD1306_putc ::
  "8 word \<Rightarrow> FontDef_t \<Rightarrow> SSD1306_color_t \<Rightarrow> SSD1306_state \<Rightarrow> SSD1306_status_t \<times> SSD1306_state" where
  "SSD1306_putc ch font color s =
     (if int SSD1306_WIDTH \<le> uint (currentX s) + uint (fontWidth font) \<or>
         int SSD1306_HEIGHT \<le> uint (currentY s) + uint (fontHeight font)
      then (INVALID_PARAMS, s)
      else (let s1 = putc_row_loop 0 ch font color s
            in (LCD_OK, s1\<lparr>currentX := currentX s1 + ucast (fontWidth font)\<rparr>)))"

text \<open>
  \<^verbatim>\<open>SSD1306_puts\<close>: the list holds the bytes at \<^verbatim>\<open>str\<close>; the loop \<^verbatim>\<open>while (*str)\<close> ends at
  the first zero byte (the end of the list stands for the terminator). The status of
  \<^verbatim>\<open>SSD1306_putc\<close> is dropped, as in the C code.
\<close>

fun SSD1306_puts ::
  "8 word list \<Rightarrow> FontDef_t \<Rightarrow> SSD1306_color_t \<Rightarrow> SSD1306_state \<Rightarrow> SSD1306_status_t \<times> SSD1306_state" where
  "SSD1306_puts [] font color s = (LCD_OK, s)"
| "SSD1306_puts (c # str) font color s =
     (if c = 0 then (LCD_OK, s)
      else SSD1306_puts str font color (snd (SSD1306_putc c font color s)))"

text \<open>
  The loops of \<^verbatim>\<open>SSD1306_drawLine\<close>. The counter \<^verbatim>\<open>i\<close> is an \<^verbatim>\<open>int16_t\<close> compared with a
  \<^verbatim>\<open>uint16_t\<close> bound after promotion to \<^verbatim>\<open>int\<close>; as functions of arbitrary arguments the
  loops need not terminate, so they return \<open>None\<close> when they do not.
\<close>

partial_function (option) drawLine_vertical ::
  "16 word \<Rightarrow> 16 word \<Rightarrow> 16 word \<Rightarrow> SSD1306_color_t \<Rightarrow> SSD1306_state \<Rightarrow> SSD1306_state option" where
  "drawLine_vertical i x0 y1 color s =
     (if sint i \<le> uint y1
      then drawLine_vertical (i + 1) x0 y1 color (snd (SSD1306_drawPixel x0 i color s))
      else Some s)"

partial_function (option) drawLine_horizontal ::
  "16 word \<Rightarrow> 16 word \<Rightarrow> 16 word \<Rightarrow> SSD1306_color_t \<Rightarrow> SSD1306_state \<Rightarrow> SSD1306_state option" where
  "drawLine_horizontal i y0 x1 color s =
     (if sint i \<le> uint x1
      then drawLine_horizontal (i + 1) y0 x1 color (snd (SSD1306_drawPixel i y0 color s))
      else Some s)"

text \<open>The general stepper, \<^verbatim>\<open>while (1) { ... }\<close>; \<open>dx\<close>, \<open>dy\<close>, \<open>sx\<close>, \<open>sy\<close>, \<open>err\<close> are \<^verbatim>\<open>int16_t\<close>.\<close>

partial_function (option) drawLine_loop ::
  "16 word \<Rightarrow> 16 word \<Rightarrow> 16 word \<Rightarrow> 16 word \<Rightarrow> 16 word \<Rightarrow> 16 word \<Rightarrow> 16 word \<Rightarrow> 16 word \<Rightarrow> 16 word \<Rightarrow>
   SSD1306_color_t \<Rightarrow> SSD1306_state \<Rightarrow> SSD1306_state option" where
  "drawLine_loop x0 y0 x1 y1 dx dy sx sy err color s =
     (if x0 = x1 \<and> y0 = y1 then Some (snd (SSD1306_drawPixel x0 y0 color s))
      else drawLine_loop
             (if sint err > - sint dx then x0 + sx else x0)
             (if sint err < sint dy then y0 + sy else y0)
             x1 y1 dx dy sx sy
             ((if sint err > - sint dx then err - dy else err) + (if sint err < sint dy then dx else 0))
             color (snd (SSD1306_drawPixel x0 y0 color s)))"

definition SSD1306_drawLine ::
  "16 word \<Rightarrow> 16 word \<Rightarrow> 16 word \<Rightarrow> 16 word \<Rightarrow> SSD1306_color_t \<Rightarrow> SSD1306_state \<Rightarrow>
   (SSD1306_status_t \<times> SSD1306_state) option" where
  "SSD1306_drawLine x0 y0 x1 y1 color s =
     (let x0 = (if unat x0 \<ge> SSD1306_WIDTH then word_of_nat (SSD1306_WIDTH - 1) else x0);
          x1 = (if unat x1 \<ge> SSD1306_WIDTH then word_of_nat (SSD1306_WIDTH - 1) else x1);
          y0 = (if unat y0 \<ge> SSD1306_HEIGHT then word_of_nat (SSD1306_HEIGHT - 1) else y0);
          y1 = (if unat y1 \<ge> SSD1306_HEIGHT then word_of_nat (SSD1306_HEIGHT - 1) else y1);
          dx = (if x0 < x1 then x1 - x0 else x0 - x1);
          dy = (if y0 < y1 then y1 - y0 else y0 - y1);
          sx = (if x0 < x1 then 1 else - 1);
          sy = (if y0 < y1 then 1 else - 1);
          err = word_of_int (drop_bit 1 (if sint dx > sint dy then sint dx else - sint dy))
      in if dx = 0 then
           (let ya = (if y1 < y0 then y1 else y0);
                yb = (if y1 < y0 then y0 else y1);
                xa = (if x1 < x0 then x1 else x0)
            in map_option (Pair LCD_OK) (drawLine_vertical ya xa yb color s))
         else if dy = 0 then
           (let ya = (if y1 < y0 then y1 else y0);
                xa = (if x1 < x0 then x1 else x0);
                xb = (if x1 < x0 then x0 else x1)
            in map_option (Pair LCD_OK) (drawLine_horizontal xa ya xb color s))
         else map_option (Pair LCD_OK) (drawLine_loop x0 y0 x1 y1 dx dy sx sy err color s))"

text \<open>
  \<^verbatim>\<open>SSD1306_drawRectangle\<close>. The sums \<^verbatim>\<open>x + w\<close> and \<^verbatim>\<open>y + h\<close> of the comparisons are
  computed in \<^verbatim>\<open>int\<close> and cannot wrap; the arguments of the four calls are converted to
  \<^verbatim>\<open>uint16_t\<close>. The statuses of \<^verbatim>\<open>SSD1306_drawLine\<close> are dropped, as in the C code.
\<close>

definition SSD1306_drawRectangle ::
  "16 word \<Rightarrow> 16 word \<Rightarrow> 16 word \<Rightarrow> 16 word \<Rightarrow> SSD1306_color_t \<Rightarrow> SSD1306_state \<Rightarrow>
   (SSD1306_status_t \<times> SSD1306_state) option" where
  "SSD1306_drawRectangle x y w h color s =
     (if unat x \<ge> SSD1306_WIDTH \<or> unat y \<ge> SSD1306_HEIGHT then Some (INVALID_PARAMS, s)
      else (let w = (if unat x + unat w \<ge> SSD1306_WIDTH then word_of_nat SSD1306_WIDTH - x else w);
                h = (if unat y + unat h \<ge> SSD1306_HEIGHT then word_of_nat SSD1306_HEIGHT - y else h)
            in case SSD1306_drawLine x y (x + w) y color s of None \<Rightarrow> None | Some (r1, s1) \<Rightarrow>
              (case SSD1306_drawLine x (y + h) (x + w) (y + h) color s1 of None \<Rightarrow> None | Some (r2, s2) \<Rightarrow>
              (case SSD1306_drawLine x y x (y + h) color s2 of None \<Rightarrow> None | Some (r3, s3) \<Rightarrow>
              (case SSD1306_drawLine (x + w) y (x + w) (y + h) color s3 of None \<Rightarrow> None | Some (r4, s4) \<Rightarrow>
                 Some (LCD_OK, s4))))))"

text \<open>
  The loop of \<^verbatim>\<open>SSD1306_drawCircle\<close>, \<^verbatim>\<open>while (x < y)\<close>. All of \<open>x0\<close>, \<open>y0\<close>, \<open>x\<close>,
  \<open>y\<close>, \<open>f\<close>, \<open>ddF_x\<close>, \<open>ddF_y\<close> are \<^verbatim>\<open>int16_t\<close>; the coordinates handed to
  \<^verbatim>\<open>SSD1306_drawPixel\<close> are converted to \<^verbatim>\<open>uint16_t\<close>.
\<close>

text \<open>The eight calls of \<^verbatim>\<open>SSD1306_drawPixel\<close> in the body of that loop, in their order.\<close>

definition plot8 ::
  "16 word \<Rightarrow> 16 word \<Rightarrow> 16 word \<Rightarrow> 16 word \<Rightarrow> SSD1306_color_t \<Rightarrow> SSD1306_state \<Rightarrow> SSD1306_state" where
  "plot8 x0 y0 x y color s =
     (let s1 = snd (SSD1306_drawPixel (x0 + x) (y0 + y) color s);
          s2 = snd (SSD1306_drawPixel (x0 - x) (y0 + y) color s1);
          s3 = snd (SSD1306_drawPixel (x0 + x) (y0 - y) color s2);
          s4 = snd (SSD1306_drawPixel (x0 - x) (y0 - y) color s3);
          s5 = snd (SSD1306_drawPixel (x0 + y) (y0 + x) color s4);
          s6 = snd (SSD1306_drawPixel (x0 - y) (y0 + x) color s5);
          s7 = snd (SSD1306_drawPixel (x0 + y) (y0 - x) color s6)
      in snd (SSD1306_drawPixel (x0 - y) (y0 - x) color s7))"

function drawCircle_loop ::
  "16 word \<Rightarrow> 16 word \<Rightarrow> 16 word \<Rightarrow> 16 word \<Rightarrow> 16 word \<Rightarrow> 16 word \<Rightarrow> 16 word \<Rightarrow>
   SSD1306_color_t \<Rightarrow> SSD1306_state \<Rightarrow> SSD1306_state" where
  "drawCircle_loop x0 y0 x y f ddF_x ddF_y color s =
     (if sint x < sint y then
        (let y' = (if 0 \<le> sint f then y - 1 else y);
             ddF_y' = (if 0 \<le> sint f then ddF_y + 2 else ddF_y);
             f' = (if 0 \<le> sint f then f + ddF_y' else f);
             x' = x + 1;
             ddF_x' = ddF_x + 2;
             f'' = f' + ddF_x'
         in drawCircle_loop x0 y0 x' y' f'' ddF_x' ddF_y' color (plot8 x0 y0 x' y' color s))
      else s)"
  by pat_completeness auto
termination
proof (relation "measure (\<lambda>(x0, y0, x, y, f, ddF_x, ddF_y, color, s). nat (sint y - sint x))")
  fix x y f y' x' :: "16 word"
  assume lt: "sint x < sint y" and y': "y' = (if 0 \<le> sint f then y - 1 else y)" and x': "x' = x + 1"
  have "sint y < 2 ^ 15" using sint_lt[of y] by simp
  moreover have "- (2 ^ 15) \<le> sint x" using sint_range_size[of x] by (simp add: word_size)
  ultimately have inc: "sint (x + 1) = sint x + 1" and dec: "sint (y - 1) = sint y - 1"
    using lt by (simp_all add: sint_word_add sint_word_diff signed_take_bit_int_eq_self)
  then have "nat (sint y' - sint x') < nat (sint y - sint x)"
    using lt y' x' by simp
  then show "((x0, y0, x', y', f2, dx2, dy2, color, s'), (x0, y0, x, y, f, dx, dy, color, s))
      \<in> measure (\<lambda>(x0, y0, x, y, f, ddF_x, ddF_y, color, s). nat (sint y - sint x))"
    for x0 y0 f2 dx2 dy2 dx dy :: "16 word" and color :: SSD1306_color_t and s s' :: SSD1306_state
    by simp
qed simp

definition SSD1306_drawCircle ::
  "16 word \<Rightarrow> 16 word \<Rightarrow> 16 word \<Rightarrow> SSD1306_color_t \<Rightarrow> SSD1306_state \<Rightarrow> SSD1306_status_t \<times> SSD1306_state" where
  "SSD1306_drawCircle x0 y0 r color s =
     (let f = 1 - r;
          ddF_x = 1;
          ddF_y = - 2 * r;
          x = 0;
          y = r;
          s1 = snd (SSD1306_drawPixel x0 (y0 + r) color s);
          s2 = snd (SSD1306_drawPixel x0 (y0 - r) color s1);
          s3 = snd (SSD1306_drawPixel (x0 + r) y0 color s2);
          s4 = snd (SSD1306_drawPixel (x0 - r) y0 color s3)
      in (LCD_OK, drawCircle_loop x0 y0 x y f ddF_x ddF_y color s4))"

text \<open>C's integer division, which truncates toward zero.\<close>

definition c_div :: "int \<Rightarrow> int \<Rightarrow> int" where
  "c_div a b = sgn a * sgn b * (\<bar>a\<bar> div \<bar>b\<bar>)"

text \<open>
  The row loop of \<^verbatim>\<open>SSD1306_drawFilledRectangle\<close>, \<^verbatim>\<open>for (uint8_t i = 0; i <= h; i++)\<close>: an
  8-bit counter against a 16-bit bound, compared after promotion to \<^verbatim>\<open>int\<close>.
\<close>

partial_function (option) drawFilledRectangle_loop ::
  "8 word \<Rightarrow> 16 word \<Rightarrow> 16 word \<Rightarrow> 16 word \<Rightarrow> 16 word \<Rightarrow> SSD1306_color_t \<Rightarrow> SSD1306_state \<Rightarrow>
   SSD1306_state option" where
  "drawFilledRectangle_loop i x y w h color s =
     (if uint i \<le> uint h
      then Option.bind (SSD1306_drawLine x (y + ucast i) (x + w) (y + ucast i) color s)
             (\<lambda>rs. drawFilledRectangle_loop (i + 1) x y w h color (snd rs))
      else Some s)"

definition SSD1306_drawFilledRectangle ::
  "16 word \<Rightarrow> 16 word \<Rightarrow> 16 word \<Rightarrow> 16 word \<Rightarrow> SSD1306_color_t \<Rightarrow> SSD1306_state \<Rightarrow>
   (SSD1306_status_t \<times> SSD1306_state) option" where
  "SSD1306_drawFilledRectangle x y w h color s =
     (if unat x \<ge> SSD1306_WIDTH \<or> unat y \<ge> SSD1306_HEIGHT then Some (INVALID_PARAMS, s)
      else (let w = (if unat x + unat w \<ge> SSD1306_WIDTH then word_of_nat SSD1306_WIDTH - x else w);
                h = (if unat y + unat h \<ge> SSD1306_HEIGHT then word_of_nat SSD1306_HEIGHT - y else h)
            in map_option (Pair LCD_OK) (drawFilledRectangle_loop 0 x y w h color s)))"

text \<open>\<^verbatim>\<open>SSD1306_drawTriangle\<close>: three lines; their statuses are dropped.\<close>

definition SSD1306_drawTriangle ::
  "16 word \<Rightarrow> 16 word \<Rightarrow> 16 word \<Rightarrow> 16 word \<Rightarrow> 16 word \<Rightarrow> 16 word \<Rightarrow> SSD1306_color_t \<Rightarrow> SSD1306_state \<Rightarrow>
   (SSD1306_status_t \<times> SSD1306_state) option" where
  "SSD1306_drawTriangle x1 y1 x2 y2 x3 y3 color s =
     (case SSD1306_drawLine x1 y1 x2 y2 color s of None \<Rightarrow> None | Some (r1, s1) \<Rightarrow>
     (case SSD1306_drawLine x2 y2 x3 y3 color s1 of None \<Rightarrow> None | Some (r2, s2) \<Rightarrow>
     (case SSD1306_drawLine x3 y3 x1 y1 color s2 of None \<Rightarrow> None | Some (r3, s3) \<Rightarrow>
        Some (LCD_OK, s3))))"

text \<open>
  The loop of \<^verbatim>\<open>SSD1306_drawFilledTriangle\<close>,
  \<^verbatim>\<open>for (curpixel = 0; curpixel <= numpixels; curpixel++)\<close>. All the variables are
  \<^verbatim>\<open>int16_t\<close>; \<open>x\<close> and \<open>y\<close> are converted to \<^verbatim>\<open>uint16_t\<close> for \<^verbatim>\<open>SSD1306_drawLine\<close>.
\<close>

partial_function (option) drawFilledTriangle_loop ::
  "16 word \<Rightarrow> 16 word \<Rightarrow> 16 word \<Rightarrow> 16 word \<Rightarrow> 16 word \<Rightarrow> 16 word \<Rightarrow> 16 word \<Rightarrow> 16 word \<Rightarrow> 16 word \<Rightarrow>
   16 word \<Rightarrow> 16 word \<Rightarrow> 16 word \<Rightarrow> 16 word \<Rightarrow> SSD1306_color_t \<Rightarrow> SSD1306_state \<Rightarrow> SSD1306_state option" where
  "drawFilledTriangle_loop curpixel numpixels x y x3 y3 num den numadd xinc1 xinc2 yinc1 yinc2 color s =
     (if sint curpixel \<le> sint numpixels
      then Option.bind (SSD1306_drawLine x y x3 y3 color s)
             (\<lambda>rs. drawFilledTriangle_loop (curpixel + 1) numpixels
                (if sint (num + numadd) \<ge> sint den then x + xinc1 + xinc2 else x + xinc2)
                (if sint (num + numadd) \<ge> sint den then y + yinc1 + yinc2 else y + yinc2)
                x3 y3
                (if sint (num + numadd) \<ge> sint den then num + numadd - den else num + numadd)
                den numadd xinc1 xinc2 yinc1 yinc2 color (snd rs))
      else Some s)"

text \<open>
  \<^verbatim>\<open>SSD1306_drawFilledTriangle\<close>. \<^verbatim>\<open>ABS(x2 - x1)\<close> is computed in \<^verbatim>\<open>int\<close> from the promoted
  \<^verbatim>\<open>uint16_t\<close> arguments and converted to \<^verbatim>\<open>int16_t\<close>.
\<close>

definition SSD1306_drawFilledTriangle ::
  "16 word \<Rightarrow> 16 word \<Rightarrow> 16 word \<Rightarrow> 16 word \<Rightarrow> 16 word \<Rightarrow> 16 word \<Rightarrow> SSD1306_color_t \<Rightarrow> SSD1306_state \<Rightarrow>
   (SSD1306_status_t \<times> SSD1306_state) option" where
  "SSD1306_drawFilledTriangle x1 y1 x2 y2 x3 y3 color s =
     (let deltax = (word_of_int \<bar>uint x2 - uint x1\<bar> :: 16 word);
          deltay = (word_of_int \<bar>uint y2 - uint y1\<bar> :: 16 word);
          x = x1;
          y = y1;
          xinc1 = (if x2 \<ge> x1 then 1 else - 1);
          xinc2 = (if x2 \<ge> x1 then 1 else - 1);
          yinc1 = (if y2 \<ge> y1 then 1 else - 1);
          yinc2 = (if y2 \<ge> y1 then 1 else - 1)
      in if sint deltax \<ge> sint deltay
         then (let xinc1 = 0;
                   yinc2 = 0;
                   den = deltax;
                   num = word_of_int (c_div (sint deltax) 2);
                   numadd = deltay;
                   numpixels = deltax
               in map_option (Pair LCD_OK)
                    (drawFilledTriangle_loop 0 numpixels x y x3 y3 num den numadd
                       xinc1 xinc2 yinc1 yinc2 color s))
         else (let xinc2 = 0;
                   yinc1 = 0;
                   den = deltay;
                   num = word_of_int (c_div (sint deltay) 2);
                   numadd = deltax;
                   numpixels = deltay
               in map_option (Pair LCD_OK)
                    (drawFilledTriangle_loop 0 numpixels x y x3 y3 num den numadd
                       xinc1 xinc2 yinc1 yinc2 color s)))"

text \<open>
  The loop of \<^verbatim>\<open>SSD1306_drawFilledCircle\<close>, \<^verbatim>\<open>while (x < y)\<close>, with its four calls of
  \<^verbatim>\<open>SSD1306_drawLine\<close>.
\<close>

partial_function (option) drawFilledCircle_loop ::
  "16 word \<Rightarrow> 16 word \<Rightarrow> 16 word \<Rightarrow> 16 word \<Rightarrow> 16 word \<Rightarrow> 16 word \<Rightarrow> 16 word \<Rightarrow>
   SSD1306_color_t \<Rightarrow> SSD1306_state \<Rightarrow> SSD1306_state option" where
  "drawFilledCircle_loop x0 y0 x y f ddF_x ddF_y color s =
     (if sint x < sint y then
        Option.bind (SSD1306_drawLine (x0 - (x + 1)) (y0 + (if 0 \<le> sint f then y - 1 else y))
                       (x0 + (x + 1)) (y0 + (if 0 \<le> sint f then y - 1 else y)) color s) (\<lambda>rs1.
        Option.bind (SSD1306_drawLine (x0 + (x + 1)) (y0 - (if 0 \<le> sint f then y - 1 else y))
                       (x0 - (x + 1)) (y0 - (if 0 \<le> sint f then y - 1 else y)) color (snd rs1)) (\<lambda>rs2.
        Option.bind (SSD1306_drawLine (x0 + (if 0 \<le> sint f then y - 1 else y)) (y0 + (x + 1))
                       (x0 - (if 0 \<le> sint f then y - 1 else y)) (y0 + (x + 1)) color (snd rs2)) (\<lambda>rs3.
        Option.bind (SSD1306_drawLine (x0 + (if 0 \<le> sint f then y - 1 else y)) (y0 - (x + 1))
                       (x0 - (if 0 \<le> sint f then y - 1 else y)) (y0 - (x + 1)) color (snd rs3)) (\<lambda>rs4.
        drawFilledCircle_loop x0 y0 (x + 1) (if 0 \<le> sint f then y - 1 else y)
          ((if 0 \<le> sint f then f + (ddF_y + 2) else f) + (ddF_x + 2))
          (ddF_x + 2) (if 0 \<le> sint f then ddF_y + 2 else ddF_y) color (snd rs4)))))
      else Some s)"

definition SSD1306_drawFilledCircle ::
  "16 word \<Rightarrow> 16 word \<Rightarrow> 16 word \<Rightarrow> SSD1306_color_t \<Rightarrow> SSD1306_state \<Rightarrow>
   (SSD1306_status_t \<times> SSD1306_state) option" where
  "SSD1306_drawFilledCircle x0 y0 r color s =
     (let f = 1 - r;
          ddF_x = 1;
          ddF_y = - 2 * r;
          x = 0;
          y = r;
          s1 = snd (SSD1306_drawPixel x0 (y0 + r) color s);
          s2 = snd (SSD1306_drawPixel x0 (y0 - r) color s1);
          s3 = snd (SSD1306_drawPixel (x0 + r) y0 color s2);
          s4 = snd (SSD1306_drawPixel (x0 - r) y0 color s3)
      in case SSD1306_drawLine (x0 - r) y0 (x0 + r) y0 color s4 of None \<Rightarrow> None | Some (r5, s5) \<Rightarrow>
           map_option (Pair LCD_OK) (drawFilledCircle_loop x0 y0 x y f ddF_x ddF_y color s5))"

text \<open>
  The loops of \<^verbatim>\<open>SSD1306_drawBitmap\<close>. \<open>bitmap\<close> gives the byte found at each index from
  the pointer. The inner loop, \<^verbatim>\<open>for (int16_t i = 0; i < w; i++)\<close>, carries the shift register
  \<^verbatim>\<open>byte\<close> (a \<^verbatim>\<open>uint8_t\<close>) along with the state; the index
  \<^verbatim>\<open>j * byteWidth + i / 8\<close> is computed in \<^verbatim>\<open>int\<close>. The status of \<^verbatim>\<open>SSD1306_drawPixel\<close> is
  dropped.
\<close>

function drawBitmap_cols ::
  "16 word \<Rightarrow> 16 word \<Rightarrow> 16 word \<Rightarrow> 16 word \<Rightarrow> 16 word \<Rightarrow> 16 word \<Rightarrow> (int \<Rightarrow> 8 word) \<Rightarrow>
   SSD1306_color_t \<Rightarrow> 8 word \<times> SSD1306_state \<Rightarrow> 8 word \<times> SSD1306_state" where
  "drawBitmap_cols i j x y w byteWidth bitmap color bs =
     (if sint i < sint w then
        (let byte = (if i AND 7 \<noteq> 0 then push_bit 1 (fst bs)
                     else bitmap (sint j * sint byteWidth + c_div (sint i) 8));
             s = (if byte AND 0x80 \<noteq> 0 then snd (SSD1306_drawPixel (x + i) y color (snd bs))
                  else snd bs)
         in drawBitmap_cols (i + 1) j x y w byteWidth bitmap color (byte, s))
      else bs)"
  by pat_completeness auto
termination
proof (relation "measure (\<lambda>(i, j, x, y, w, byteWidth, bitmap, color, bs). nat (sint w - sint i))")
  fix i w :: "16 word"
  assume lt: "sint i < sint w"
  have "sint w < 2 ^ 15" using sint_lt[of w] by simp
  moreover have "- (2 ^ 15) \<le> sint i" using sint_range_size[of i] by (simp add: word_size)
  ultimately have "sint (i + 1) = sint i + 1"
    using lt by (simp add: sint_word_add signed_take_bit_int_eq_self)
  then have "nat (sint w - sint (i + 1)) < nat (sint w - sint i)" using lt by simp
  then show "((i + 1, j, x, y, w, byteWidth, bitmap, color, bs'), (i, j, x, y, w, byteWidth, bitmap, color, bs))
      \<in> measure (\<lambda>(i, j, x, y, w, byteWidth, bitmap, color, bs). nat (sint w - sint i))"
    for j x y byteWidth :: "16 word" and bitmap :: "int \<Rightarrow> 8 word" and color :: SSD1306_color_t
      and bs bs' :: "8 word \<times> SSD1306_state"
    by simp
qed simp

text \<open>The outer loop, \<^verbatim>\<open>for (int16_t j = 0; j < h; j++, y++)\<close>.\<close>

function drawBitmap_rows ::
  "16 word \<Rightarrow> 16 word \<Rightarrow> 16 word \<Rightarrow> 16 word \<Rightarrow> 16 word \<Rightarrow> 16 word \<Rightarrow> (int \<Rightarrow> 8 word) \<Rightarrow>
   SSD1306_color_t \<Rightarrow> 8 word \<times> SSD1306_state \<Rightarrow> 8 word \<times> SSD1306_state" where
  "drawBitmap_rows j x y w h byteWidth bitmap color bs =
     (if sint j < sint h then
        drawBitmap_rows (j + 1) x (y + 1) w h byteWidth bitmap color
          (drawBitmap_cols 0 j x y w byteWidth bitmap color bs)
      else bs)"
  by pat_completeness auto
termination
proof (relation "measure (\<lambda>(j, x, y, w, h, byteWidth, bitmap, color, bs). nat (sint h - sint j))")
  fix j h :: "16 word"
  assume lt: "sint j < sint h"
  have "sint h < 2 ^ 15" using sint_lt[of h] by simp
  moreover have "- (2 ^ 15) \<le> sint j" using sint_range_size[of j] by (simp add: word_size)
  ultimately have "sint (j + 1) = sint j + 1"
    using lt by (simp add: sint_word_add signed_take_bit_int_eq_self)
  then have "nat (sint h - sint (j + 1)) < nat (sint h - sint j)" using lt by simp
  then show "((j + 1, x, y + 1, w, h, byteWidth, bitmap, color, bs'), (j, x, y, w, h, byteWidth, bitmap, color, bs))
      \<in> measure (\<lambda>(j, x, y, w, h, byteWidth, bitmap, color, bs). nat (sint h - sint j))"
    for x y w byteWidth :: "16 word" and bitmap :: "int \<Rightarrow> 8 word" and color :: SSD1306_color_t
      and bs bs' :: "8 word \<times> SSD1306_state"
    by simp
qed simp

text \<open>
  \<^verbatim>\<open>SSD1306_drawBitmap\<close>; \<open>x\<close>, \<open>y\<close>, \<open>w\<close>, \<open>h\<close> are \<^verbatim>\<open>int16_t\<close>, and
  \<^verbatim>\<open>byteWidth = (w + 7) >> 3\<close> is an arithmetic shift of an \<^verbatim>\<open>int\<close>.
\<close>

definition SSD1306_drawBitmap ::
  "16 word \<Rightarrow> 16 word \<Rightarrow> (int \<Rightarrow> 8 word) \<Rightarrow> 16 word \<Rightarrow> 16 word \<Rightarrow> SSD1306_color_t \<Rightarrow> SSD1306_state \<Rightarrow>
   SSD1306_status_t \<times> SSD1306_state" where
  "SSD1306_drawBitmap x y bitmap w h color s =
     (let byteWidth = (word_of_int (drop_bit 3 (sint w + 7)) :: 16 word);
          byte = 0
      in (LCD_OK, snd (drawBitmap_rows 0 x y w h byteWidth bitmap color (byte, s))))"

section \<open>Observing the framebuffer\<close>

text \<open>
  The pixel at column \<open>x\<close> and row \<open>y\<close> of the panel is bit \<open>y mod 8\<close> of the byte at offset
  \<open>x + (y div 8) * SSD1306_WIDTH\<close>, the bit \<^verbatim>\<open>SSD1306_drawPixel\<close> addresses. Coordinates
  outside the panel name no pixel, so no such pixel is on.
\<close>

definition pixel_on :: "8 word list \<Rightarrow> int \<Rightarrow> int \<Rightarrow> bool" where
  "pixel_on buf x y \<longleftrightarrow>
     0 \<le> x \<and> x < int SSD1306_WIDTH \<and> 0 \<le> y \<and> y < int SSD1306_HEIGHT \<and>
     bit (buf ! (nat x + nat y div 8 * SSD1306_WIDTH)) (nat y mod 8)"

text \<open>
  Whether a pixel drawn with colour \<open>c\<close> ends up on: the requested colour, negated when the
  \<open>inverted\<close> flag of the device is set (the test \<^verbatim>\<open>if (SSD1306.inverted)\<close> of
  \<^verbatim>\<open>SSD1306_drawPixel\<close>).
\<close>

definition lit :: "SSD1306_color_t \<Rightarrow> SSD1306_state \<Rightarrow> bool" where
  "lit c s \<longleftrightarrow> (c = SSD1306_COLOR_WHITE) \<noteq> (inverted s \<noteq> 0)"

text \<open>
  A font of the given cell size whose table has every bit set, to run the text functions
  on. The driver's fonts (\<^verbatim>\<open>FontDef_7x10\<close>, \<^verbatim>\<open>FontDef_11x18\<close>, \<^verbatim>\<open>FontDef_16x26\<close>) are declared
  in \<^verbatim>\<open>fonts.h\<close>; their tables are not part of the sources at hand.
\<close>

definition solid_font :: "8 word \<Rightarrow> 8 word \<Rightarrow> FontDef_t" where
  "solid_font w h = \<lparr> fontWidth = w, fontHeight = h, data = (\<lambda>_. 0xFFFF) \<rparr>"

text \<open>
  \<open>draws s t A v\<close>: state \<open>t\<close> is state \<open>s\<close> with the pixels of the region \<open>A\<close> set to
  \<open>v\<close>; every other pixel and everything outside the framebuffer is as in \<open>s\<close>.
\<close>

definition draws :: "SSD1306_state \<Rightarrow> SSD1306_state \<Rightarrow> (int \<Rightarrow> int \<Rightarrow> bool) \<Rightarrow> bool \<Rightarrow> bool" where
  "draws s t A v \<longleftrightarrow>
     i2c_ptr t = i2c_ptr s \<and> currentX t = currentX s \<and> currentY t = currentY s
     \<and> inverted t = inverted s \<and> initialized t = initialized s \<and> i2c_bus t = i2c_bus s
     \<and> length (SSD1306_Buffer t) = length (SSD1306_Buffer s)
     \<and> (\<forall>p q. pixel_on (SSD1306_Buffer t) p q = (if A p q then v else pixel_on (SSD1306_Buffer s) p q))"

text \<open>The coordinates of the panel.\<close>

definition on_panel :: "int \<Rightarrow> int \<Rightarrow> bool" where
  "on_panel p q \<longleftrightarrow> 0 \<le> p \<and> p < int SSD1306_WIDTH \<and> 0 \<le> q \<and> q < int SSD1306_HEIGHT"

text \<open>
  The pixels of the panel whose offset from \<open>(x0, y0)\<close>, in 16-bit arithmetic, belongs to
  \<open>D\<close>: the pixels reached by calls \<^verbatim>\<open>SSD1306_drawPixel(x0 + a, y0 + b, ...)\<close> with
  \<open>(a, b)\<close> in \<open>D\<close>.
\<close>

definition offsets_region :: "16 word \<Rightarrow> 16 word \<Rightarrow> (16 word \<times> 16 word) set \<Rightarrow> int \<Rightarrow> int \<Rightarrow> bool" where
  "offsets_region x0 y0 D p q \<longleftrightarrow> on_panel p q \<and> (word_of_int p - x0, word_of_int q - y0) \<in> D"

text \<open>A set of offsets closed under the reflections that generate the eight symmetries.\<close>

definition sym8 :: "(16 word \<times> 16 word) set \<Rightarrow> bool" where
  "sym8 D \<longleftrightarrow> (\<forall>a b. (a, b) \<in> D \<longrightarrow> (- a, b) \<in> D \<and> (a, - b) \<in> D \<and> (b, a) \<in> D)"

section \<open>Words, bits and buffer offsets\<close>

text \<open>The loop equations are unfolded by hand, one iteration at a time.\<close>

declare updateScreen_loop.simps [simp del] toggleInvert_loop.simps [simp del]
  putc_col_loop.simps [simp del] putc_row_loop.simps [simp del] drawCircle_loop.simps [simp del]
  drawBitmap_cols.simps [simp del] drawBitmap_rows.simps [simp del]

lemma unat_drop3: "unat (drop_bit 3 (y::16 word)) = unat y div 8"
  by (simp add: unat_drop_bit_eq drop_bit_eq_div unat_div)

lemma unat_and7: "unat ((y::16 word) AND 7) = unat y mod 8"
proof -
  have "(7::16 word) = mask 3" by (simp add: mask_eq_exp_minus_1)
  then have "y AND 7 = take_bit 3 y" by (simp add: take_bit_eq_mask)
  then show ?thesis by (simp add: unsigned_take_bit_eq take_bit_eq_mod unat_mod)
qed

lemma bit_set8: "k < 8 \<Longrightarrow> bit ((b::8 word) OR push_bit k 1) n \<longleftrightarrow> bit b n \<or> n = k"
  by (auto simp: bit_or_iff bit_push_bit_iff bit_1_iff bit_exp_iff dest: bit_imp_le_length)

lemma bit_clear8: "bit ((b::8 word) AND NOT (push_bit k 1)) n \<longleftrightarrow> bit b n \<and> n \<noteq> k"
  by (auto simp: bit_and_iff bit_not_iff bit_push_bit_iff bit_1_iff bit_exp_iff dest: bit_imp_le_length)

lemma bit_set8_exp: "k < 8 \<Longrightarrow> bit ((b::8 word) OR 2 ^ k) n \<longleftrightarrow> bit b n \<or> n = k"
  using bit_set8[of k b n] by simp

lemma bit_clear8_exp: "bit ((b::8 word) AND NOT (2 ^ k)) n \<longleftrightarrow> bit b n \<and> n \<noteq> k"
  using bit_clear8[of b k n] by simp

lemma pixel_index_inj:
  fixes x y p q :: nat
  assumes "x < 128" "p < 128"
  shows "x + y div 8 * 128 = p + q div 8 * 128 \<and> y mod 8 = q mod 8 \<longleftrightarrow> x = p \<and> y = q"
proof
  assume a: "x + y div 8 * 128 = p + q div 8 * 128 \<and> y mod 8 = q mod 8"
  then have "(x + y div 8 * 128) mod 128 = (p + q div 8 * 128) mod 128"
    and "(x + y div 8 * 128) div 128 = (p + q div 8 * 128) div 128" by simp_all
  with assms have xp: "x = p" and d: "y div 8 = q div 8" by simp_all
  have "y = y div 8 * 8 + y mod 8" by simp
  also have "\<dots> = q div 8 * 8 + q mod 8" using d a by simp
  also have "\<dots> = q" by simp
  finally show "x = p \<and> y = q" using xp by simp
next
  assume "x = p \<and> y = q" then show "x + y div 8 * 128 = p + q div 8 * 128 \<and> y mod 8 = q mod 8" by simp
qed

lemma pixel_index_bound:
  fixes x y :: nat
  assumes "x < 128" "y < 64"
  shows "x + y div 8 * 128 < 1024"
proof -
  from assms have "y div 8 \<le> 7" by simp
  then have "y div 8 * 128 \<le> 7 * 128" by (rule mult_le_mono1)
  with assms show ?thesis by simp
qed

lemma uint_less_iff_unat: "uint (x::'a::len word) < int n \<longleftrightarrow> unat x < n"
  by (metis of_nat_less_iff uint_nat)

lemma uint_eq_iff_unat: "0 \<le> p \<Longrightarrow> p = uint (x::'a::len word) \<longleftrightarrow> nat p = unat x"
  by (metis nat_0_le nat_int uint_nat)

lemma drawPixel_fields [simp]:
  "currentX (snd (SSD1306_drawPixel x y c s)) = currentX s"
  "currentY (snd (SSD1306_drawPixel x y c s)) = currentY s"
  "inverted (snd (SSD1306_drawPixel x y c s)) = inverted s"
  "initialized (snd (SSD1306_drawPixel x y c s)) = initialized s"
  "i2c_ptr (snd (SSD1306_drawPixel x y c s)) = i2c_ptr s"
  "i2c_bus (snd (SSD1306_drawPixel x y c s)) = i2c_bus s"
  "length (SSD1306_Buffer (snd (SSD1306_drawPixel x y c s))) = length (SSD1306_Buffer s)"
  by (simp_all add: SSD1306_drawPixel_def Let_def)

lemma drawPixel_out:
  "\<not> (unat x < 128 \<and> unat y < 64) \<Longrightarrow> SSD1306_drawPixel x y c s = (INVALID_PARAMS, s)"
  by (auto simp: SSD1306_drawPixel_def SSD1306_WIDTH_def SSD1306_HEIGHT_def)

section \<open>One pixel\<close>

lemma drawPixel_in:
  assumes "unat x < 128" "unat y < 64"
    and "c = SSD1306_COLOR_BLACK \<or> c = SSD1306_COLOR_WHITE"
  shows "SSD1306_drawPixel x y c s =
           (LCD_OK, s\<lparr>SSD1306_Buffer := (SSD1306_Buffer s)
              [unat x + unat y div 8 * 128 :=
                 (if lit c s
                  then SSD1306_Buffer s ! (unat x + unat y div 8 * 128) OR push_bit (unat y mod 8) 1
                  else SSD1306_Buffer s ! (unat x + unat y div 8 * 128) AND NOT (push_bit (unat y mod 8) 1))]\<rparr>)"
  using assms
  by (auto simp: SSD1306_drawPixel_def Let_def lit_def lnot_def SSD1306_WIDTH_def SSD1306_HEIGHT_def
      SSD1306_COLOR_BLACK_def SSD1306_COLOR_WHITE_def unat_drop3 unat_and7)

lemma drawPixel_pixel:
  assumes len: "length (SSD1306_Buffer s) = 1024"
    and col: "c = SSD1306_COLOR_BLACK \<or> c = SSD1306_COLOR_WHITE"
  shows "pixel_on (SSD1306_Buffer (snd (SSD1306_drawPixel x y c s))) p q =
           (if p = uint x \<and> q = uint y \<and> unat x < 128 \<and> unat y < 64 then lit c s
            else pixel_on (SSD1306_Buffer s) p q)"
proof (cases "unat x < 128 \<and> unat y < 64")
  case False
  then show ?thesis by (auto simp: drawPixel_out)
next
  case True
  let ?i = "unat x + unat y div 8 * 128"
  let ?b = "SSD1306_Buffer s ! ?i"
  let ?v = "if lit c s then ?b OR push_bit (unat y mod 8) 1 else ?b AND NOT (push_bit (unat y mod 8) 1)"
  have ib: "?i < length (SSD1306_Buffer s)" using True len pixel_index_bound by simp
  have ux: "uint x < 128" "uint y < 64"
    using True uint_less_iff_unat[of x 128] uint_less_iff_unat[of y 64] by simp_all
  have buf: "SSD1306_Buffer (snd (SSD1306_drawPixel x y c s)) = (SSD1306_Buffer s)[?i := ?v]"
    using True col by (simp add: drawPixel_in)
  have k8: "unat y mod 8 < 8" by simp
  show ?thesis
  proof (cases "0 \<le> p \<and> p < 128 \<and> 0 \<le> q \<and> q < 64")
    case False
    then show ?thesis using True ux by (auto simp: pixel_on_def SSD1306_WIDTH_def SSD1306_HEIGHT_def)
  next
    case pq: True
    then have np: "nat p < 128" by linarith
    let ?j = "nat p + nat q div 8 * 128"
    have inj: "(?i = ?j \<and> unat y mod 8 = nat q mod 8) \<longleftrightarrow> (unat x = nat p \<and> unat y = nat q)"
      using True np by (intro pixel_index_inj) simp_all
    have eqs: "(unat x = nat p \<and> unat y = nat q) \<longleftrightarrow> (p = uint x \<and> q = uint y)"
      using pq uint_eq_iff_unat[of p x] uint_eq_iff_unat[of q y] by metis
    have on: "pixel_on buf p q = bit (buf ! ?j) (nat q mod 8)" for buf
      using pq by (simp add: pixel_on_def SSD1306_WIDTH_def SSD1306_HEIGHT_def)
    let ?new = "SSD1306_Buffer (snd (SSD1306_drawPixel x y c s))"
    show ?thesis
    proof (cases "p = uint x \<and> q = uint y")
      case same: True
      then have ij: "?j = ?i" and kk: "nat q mod 8 = unat y mod 8" using inj eqs by simp_all
      have "?v = ((SSD1306_Buffer s)[?i := ?v]) ! ?i"
        using ib by (simp only: nth_list_update_eq)
      then have "bit ((SSD1306_Buffer s)[?i := ?v] ! ?i) (unat y mod 8) = bit ?v (unat y mod 8)"
        by (simp only:)
      also have "\<dots> = lit c s"
        using k8 by (simp add: bit_set8_exp bit_clear8_exp)
      finally have "bit (?new ! ?j) (nat q mod 8) = lit c s"
        by (simp only: buf ij kk)
      then have "pixel_on ?new p q = lit c s" by (simp only: on)
      moreover have "p = uint x \<and> q = uint y \<and> unat x < 128 \<and> unat y < 64"
        using same True by blast
      ultimately show ?thesis by simp
    next
      case diff: False
      then have ne: "\<not> (?i = ?j \<and> unat y mod 8 = nat q mod 8)" using inj eqs by simp
      have "bit ((SSD1306_Buffer s)[?i := ?v] ! ?j) (nat q mod 8) = bit (SSD1306_Buffer s ! ?j) (nat q mod 8)"
      proof (cases "?i = ?j")
        case ieq: True
        then have nk: "nat q mod 8 \<noteq> unat y mod 8" using ne by simp
        have "(SSD1306_Buffer s)[?i := ?v] ! ?i = ?v"
          using ib by (simp only: nth_list_update_eq)
        moreover have "bit ?v (nat q mod 8) = bit ?b (nat q mod 8)"
          using k8 nk by (simp add: bit_set8_exp bit_clear8_exp)
        ultimately have "bit ((SSD1306_Buffer s)[?i := ?v] ! ?i) (nat q mod 8) = bit ?b (nat q mod 8)"
          by (simp only:)
        then show ?thesis by (simp only: ieq [symmetric])
      next
        case False
        then have "(SSD1306_Buffer s)[?i := ?v] ! ?j = SSD1306_Buffer s ! ?j"
          by (rule nth_list_update_neq)
        then show ?thesis by (simp only:)
      qed
      then have "pixel_on ?new p q = pixel_on (SSD1306_Buffer s) p q"
        by (simp only: on buf)
      moreover have "\<not> (p = uint x \<and> q = uint y \<and> unat x < 128 \<and> unat y < 64)"
        using diff by blast
      ultimately show ?thesis by (simp only: if_False)
    qed
  qed
qed

section \<open>Initialisation and the initialisation guard\<close>

lemma fold_WRITECOMMAND:
  "fold SSD1306_WRITECOMMAND cs s =
     s\<lparr>i2c_bus := i2c_bus s @ map (\<lambda>c. (i2c_ptr s, SSD1306_I2C_ADDR, [0x00, c])) cs\<rparr>"
  by (induction cs arbitrary: s) (simp_all add: SSD1306_WRITECOMMAND_def SSD1306_I2C_Write_def)

lemma init_ready:
  "SSD1306_init p True s =
     (LCD_OK, s\<lparr>i2c_ptr := p, currentX := 0, currentY := 0, initialized := 1,
                 i2c_bus := i2c_bus s @ map (\<lambda>c. (p, SSD1306_I2C_ADDR, [0x00, c])) init_commands\<rparr>)"
  by (simp add: SSD1306_init_def Let_def fold_WRITECOMMAND SSD1306_clear_def)

text \<open>
  The drawing functions and \<^verbatim>\<open>SSD1306_gotoXY\<close> never mention
  \<^verbatim>\<open>SSD1306.initialized\<close>. For each of them: run on a state whose flag has been set to
  \<open>v\<close>, it returns the status it returns on the state itself, and the same state with
  the flag set to \<open>v\<close>. The loops that may not return are treated through their
  results: a run that returns on one state returns on the other.
\<close>

lemma drawPixel_init:
  "SSD1306_drawPixel x y c (s\<lparr>initialized := v\<rparr>) =
     (fst (SSD1306_drawPixel x y c s), (snd (SSD1306_drawPixel x y c s))\<lparr>initialized := v\<rparr>)"
  by (simp add: SSD1306_drawPixel_def Let_def)

lemma drawPixel_init_snd:
  "snd (SSD1306_drawPixel x y c (s\<lparr>initialized := v\<rparr>)) = (snd (SSD1306_drawPixel x y c s))\<lparr>initialized := v\<rparr>"
  by (simp add: drawPixel_init)

lemma init_indep_option:
  fixes g :: "SSD1306_state \<Rightarrow> SSD1306_state option"
  assumes "\<And>s t v. g s = Some t \<Longrightarrow> g (s\<lparr>initialized := v\<rparr>) = Some (t\<lparr>initialized := v\<rparr>)"
  shows "g (s\<lparr>initialized := v\<rparr>) = map_option (\<lambda>t. t\<lparr>initialized := v\<rparr>) (g s)"
proof (cases "g s")
  case (Some t)
  then show ?thesis using assms by simp
next
  case None
  have "g (s\<lparr>initialized := v\<rparr>) = None"
  proof (rule ccontr)
    assume "g (s\<lparr>initialized := v\<rparr>) \<noteq> None"
    then obtain t where "g (s\<lparr>initialized := v\<rparr>) = Some t" by blast
    from assms[OF this, of "initialized s"] have "g s \<noteq> None" by simp
    then show False using None by simp
  qed
  then show ?thesis using None by simp
qed

lemma drawLine_vertical_init_Some:
  assumes "drawLine_vertical i x0 y1 color s = Some t"
  shows "drawLine_vertical i x0 y1 color (s\<lparr>initialized := v\<rparr>) = Some (t\<lparr>initialized := v\<rparr>)"
proof (rule drawLine_vertical.raw_induct[where P = "\<lambda>i x0 y1 color s t.
         drawLine_vertical i x0 y1 color (s\<lparr>initialized := v\<rparr>) = Some (t\<lparr>initialized := v\<rparr>)", OF _ assms],
       goal_cases)
  case (1 f i x0 y1 color s t)
  show ?case
  proof (cases "sint i \<le> uint y1")
    case True
    then have "f (i + 1) x0 y1 color (snd (SSD1306_drawPixel x0 i color s)) = Some t"
      using 1(2) by simp
    from 1(1)[OF this] show ?thesis
      using True by (subst drawLine_vertical.simps) (simp add: drawPixel_init)
  next
    case False
    then show ?thesis using 1(2) by (subst drawLine_vertical.simps) simp
  qed
qed

lemma drawLine_horizontal_init_Some:
  assumes "drawLine_horizontal i y0 x1 color s = Some t"
  shows "drawLine_horizontal i y0 x1 color (s\<lparr>initialized := v\<rparr>) = Some (t\<lparr>initialized := v\<rparr>)"
proof (rule drawLine_horizontal.raw_induct[where P = "\<lambda>i y0 x1 color s t.
         drawLine_horizontal i y0 x1 color (s\<lparr>initialized := v\<rparr>) = Some (t\<lparr>initialized := v\<rparr>)", OF _ assms],
       goal_cases)
  case (1 f i y0 x1 color s t)
  show ?case
  proof (cases "sint i \<le> uint x1")
    case True
    then have "f (i + 1) y0 x1 color (snd (SSD1306_drawPixel i y0 color s)) = Some t"
      using 1(2) by simp
    from 1(1)[OF this] show ?thesis
      using True by (subst drawLine_horizontal.simps) (simp add: drawPixel_init)
  next
    case False
    then show ?thesis using 1(2) by (subst drawLine_horizontal.simps) simp
  qed
qed

lemma drawLine_loop_init_Some:
  assumes "drawLine_loop x0 y0 x1 y1 dx dy sx sy err color s = Some t"
  shows "drawLine_loop x0 y0 x1 y1 dx dy sx sy err color (s\<lparr>initialized := v\<rparr>)
           = Some (t\<lparr>initialized := v\<rparr>)"
proof (rule drawLine_loop.raw_induct[where P = "\<lambda>x0 y0 x1 y1 dx dy sx sy err color s t.
         drawLine_loop x0 y0 x1 y1 dx dy sx sy err color (s\<lparr>initialized := v\<rparr>)
           = Some (t\<lparr>initialized := v\<rparr>)", OF _ assms],
       goal_cases)
  case (1 f x0 y0 x1 y1 dx dy sx sy err color s t)
  show ?case
  proof (cases "x0 = x1 \<and> y0 = y1")
    case True
    then show ?thesis using 1(2) by (subst drawLine_loop.simps) (auto simp: drawPixel_init)
  next
    case False
    then have "f (if - sint dx < sint err then x0 + sx else x0)
            (if sint err < sint dy then y0 + sy else y0) x1 y1 dx dy sx sy
            ((if - sint dx < sint err then err - dy else err) +
             (if sint err < sint dy then dx else 0))
            color (snd (SSD1306_drawPixel x0 y0 color s)) = Some t"
      using 1(2) by (simp only: False if_False)
    from 1(1)[OF this] show ?thesis
      by (subst drawLine_loop.simps) (simp only: False if_False drawPixel_init_snd)
  qed
qed

lemma drawLine_init:
  "SSD1306_drawLine x0 y0 x1 y1 color (s\<lparr>initialized := v\<rparr>) =
     map_option (apsnd (\<lambda>t. t\<lparr>initialized := v\<rparr>)) (SSD1306_drawLine x0 y0 x1 y1 color s)"
proof -
  have pair: "map_option (Pair LCD_OK) (map_option (\<lambda>t. t\<lparr>initialized := v\<rparr>) r)
      = map_option (apsnd (\<lambda>t. t\<lparr>initialized := v\<rparr>)) (map_option (Pair LCD_OK) r)"
    for r :: "SSD1306_state option"
    by (cases r) simp_all
  have v: "drawLine_vertical i a b color (s\<lparr>initialized := v\<rparr>)
             = map_option (\<lambda>t. t\<lparr>initialized := v\<rparr>) (drawLine_vertical i a b color s)" for i a b
    by (rule init_indep_option) (rule drawLine_vertical_init_Some)
  have h: "drawLine_horizontal i a b color (s\<lparr>initialized := v\<rparr>)
             = map_option (\<lambda>t. t\<lparr>initialized := v\<rparr>) (drawLine_horizontal i a b color s)" for i a b
    by (rule init_indep_option) (rule drawLine_horizontal_init_Some)
  have l: "drawLine_loop a b c d e f g h i color (s\<lparr>initialized := v\<rparr>)
             = map_option (\<lambda>t. t\<lparr>initialized := v\<rparr>) (drawLine_loop a b c d e f g h i color s)"
    for a b c d e f g h i
    by (rule init_indep_option) (rule drawLine_loop_init_Some)
  show ?thesis
    unfolding SSD1306_drawLine_def Let_def v h l pair by (simp only: if_distrib[of "map_option _"] if_cancel)
qed

lemma drawLine_init_Some:
  assumes "SSD1306_drawLine a b c d color s = Some rs"
  shows "SSD1306_drawLine a b c d color (s\<lparr>initialized := v\<rparr>) = Some (fst rs, (snd rs)\<lparr>initialized := v\<rparr>)"
  using assms by (cases rs) (simp add: drawLine_init)

lemma drawLine_status:
  assumes "SSD1306_drawLine a b c d color s = Some rs"
  shows "fst rs = LCD_OK"
proof -
  have "\<exists>t0. SSD1306_drawLine a b c d color s = map_option (Pair LCD_OK) t0"
    unfolding SSD1306_drawLine_def Let_def
    by (simp only: if_distrib[of "map_option (Pair LCD_OK)", symmetric]) (rule exI, rule refl)
  with assms obtain t0 where "Some rs = map_option (Pair LCD_OK) t0" by auto
  then show ?thesis by (cases t0) auto
qed

lemma gotoXY_init:
  "SSD1306_gotoXY x y (s\<lparr>initialized := v\<rparr>) = apsnd (\<lambda>t. t\<lparr>initialized := v\<rparr>) (SSD1306_gotoXY x y s)"
  by (simp add: SSD1306_gotoXY_def)

lemma drawPixel_init_apsnd:
  "SSD1306_drawPixel x y c (s\<lparr>initialized := v\<rparr>) = apsnd (\<lambda>t. t\<lparr>initialized := v\<rparr>) (SSD1306_drawPixel x y c s)"
  by (simp add: SSD1306_drawPixel_def Let_def)

lemma plot8_init:
  "plot8 x0 y0 x y color (s\<lparr>initialized := v\<rparr>) = (plot8 x0 y0 x y color s)\<lparr>initialized := v\<rparr>"
  by (simp add: plot8_def Let_def drawPixel_init_snd)

lemma drawCircle_loop_init:
  "drawCircle_loop x0 y0 x y f ddF_x ddF_y color (s\<lparr>initialized := v\<rparr>) =
     (drawCircle_loop x0 y0 x y f ddF_x ddF_y color s)\<lparr>initialized := v\<rparr>"
proof (induction x0 y0 x y f ddF_x ddF_y color s rule: drawCircle_loop.induct)
  case (1 x0 y0 x y f ddF_x ddF_y color s)
  show ?case
  proof (cases "sint x < sint y")
    case True
    from "1.IH"[OF True refl refl refl refl refl refl] show ?thesis
      by (subst drawCircle_loop.simps, subst (2) drawCircle_loop.simps)
         (simp add: True Let_def plot8_init)
  next
    case False
    then show ?thesis
      by (subst drawCircle_loop.simps, subst (2) drawCircle_loop.simps) simp
  qed
qed

lemma drawCircle_init:
  "SSD1306_drawCircle x0 y0 r color (s\<lparr>initialized := v\<rparr>) =
     apsnd (\<lambda>t. t\<lparr>initialized := v\<rparr>) (SSD1306_drawCircle x0 y0 r color s)"
  by (simp add: SSD1306_drawCircle_def Let_def drawPixel_init_snd drawCircle_loop_init)

lemma putc_col_loop_init:
  "putc_col_loop j b i font color (s\<lparr>initialized := v\<rparr>) =
     (putc_col_loop j b i font color s)\<lparr>initialized := v\<rparr>"
proof (induction j b i font color s rule: putc_col_loop.induct)
  case (1 j b i font color s)
  show ?case
  proof (cases "j < fontWidth font")
    case True
    from "1.IH"[OF True] show ?thesis
      by (subst putc_col_loop.simps, subst (2) putc_col_loop.simps)
         (auto simp: True drawPixel_init_snd split: if_splits)
  next
    case False
    then show ?thesis
      by (subst putc_col_loop.simps, subst (2) putc_col_loop.simps) simp
  qed
qed

lemma putc_row_loop_init:
  "putc_row_loop i ch font color (s\<lparr>initialized := v\<rparr>) =
     (putc_row_loop i ch font color s)\<lparr>initialized := v\<rparr>"
proof (induction i ch font color s rule: putc_row_loop.induct)
  case (1 i ch font color s)
  show ?case
  proof (cases "i < fontHeight font")
    case True
    from "1.IH"[OF True refl] show ?thesis
      by (subst putc_row_loop.simps, subst (2) putc_row_loop.simps)
         (simp add: True Let_def putc_col_loop_init)
  next
    case False
    then show ?thesis
      by (subst putc_row_loop.simps, subst (2) putc_row_loop.simps) simp
  qed
qed

lemma putc_init:
  "SSD1306_putc ch font color (s\<lparr>initialized := v\<rparr>) =
     apsnd (\<lambda>t. t\<lparr>initialized := v\<rparr>) (SSD1306_putc ch font color s)"
  by (simp add: SSD1306_putc_def Let_def putc_row_loop_init)

lemma putc_init_snd:
  "snd (SSD1306_putc ch font color (s\<lparr>initialized := v\<rparr>)) =
     (snd (SSD1306_putc ch font color s))\<lparr>initialized := v\<rparr>"
  by (simp add: putc_init)

lemma puts_init:
  "SSD1306_puts str font color (s\<lparr>initialized := v\<rparr>) =
     apsnd (\<lambda>t. t\<lparr>initialized := v\<rparr>) (SSD1306_puts str font color s)"
  by (induction str arbitrary: s) (simp_all add: putc_init_snd)

lemma puts_ok: "fst (SSD1306_puts str font color s) = LCD_OK"
  by (induction str arbitrary: s) simp_all

lemma drawBitmap_cols_init:
  "drawBitmap_cols i j x y w byteWidth bitmap color (apsnd (\<lambda>t. t\<lparr>initialized := v\<rparr>) bs) =
     apsnd (\<lambda>t. t\<lparr>initialized := v\<rparr>) (drawBitmap_cols i j x y w byteWidth bitmap color bs)"
proof (induction i j x y w byteWidth bitmap color bs rule: drawBitmap_cols.induct)
  case (1 i j x y w byteWidth bitmap color bs)
  show ?case
  proof (cases "sint i < sint w")
    case True
    from "1.IH"[OF True refl refl] show ?thesis
      by (subst drawBitmap_cols.simps, subst (2) drawBitmap_cols.simps)
         (auto simp: True Let_def drawPixel_init_snd split: if_splits)
  next
    case False
    then show ?thesis
      by (subst drawBitmap_cols.simps, subst (2) drawBitmap_cols.simps) simp
  qed
qed

lemma drawBitmap_rows_init:
  "drawBitmap_rows j x y w h byteWidth bitmap color (apsnd (\<lambda>t. t\<lparr>initialized := v\<rparr>) bs) =
     apsnd (\<lambda>t. t\<lparr>initialized := v\<rparr>) (drawBitmap_rows j x y w h byteWidth bitmap color bs)"
proof (induction j x y w h byteWidth bitmap color bs rule: drawBitmap_rows.induct)
  case (1 j x y w h byteWidth bitmap color bs)
  show ?case
  proof (cases "sint j < sint h")
    case True
    from "1.IH"[OF True] show ?thesis
      by (subst drawBitmap_rows.simps, subst (2) drawBitmap_rows.simps)
         (simp add: True drawBitmap_cols_init)
  next
    case False
    then show ?thesis
      by (subst drawBitmap_rows.simps, subst (2) drawBitmap_rows.simps) simp
  qed
qed

lemma drawBitmap_init:
  "SSD1306_drawBitmap x y bitmap w h color (s\<lparr>initialized := v\<rparr>) =
     apsnd (\<lambda>t. t\<lparr>initialized := v\<rparr>) (SSD1306_drawBitmap x y bitmap w h color s)"
  using drawBitmap_rows_init[of 0 x y w h _ bitmap color v "(0, s)"]
  by (simp add: SSD1306_drawBitmap_def Let_def)

lemma drawFilledRectangle_loop_init_Some:
  assumes "drawFilledRectangle_loop i x y w h color s = Some t"
  shows "drawFilledRectangle_loop i x y w h color (s\<lparr>initialized := v\<rparr>) = Some (t\<lparr>initialized := v\<rparr>)"
proof (rule drawFilledRectangle_loop.raw_induct[where P = "\<lambda>i x y w h color s t.
           drawFilledRectangle_loop i x y w h color (s\<lparr>initialized := v\<rparr>) = Some (t\<lparr>initialized := v\<rparr>)"
         and xa = "((((((i, x), y), w), h), color), s)" and ya = t, unfolded prod.case],
       goal_cases)
  case (1 f i x y w h color s t)
  show ?case
  proof (cases "uint i \<le> uint h")
    case True
    with 1(2) obtain rs where L: "SSD1306_drawLine x (y + ucast i) (x + w) (y + ucast i) color s = Some rs"
      and F: "f (i + 1) x y w h color (snd rs) = Some t"
      by (auto simp: bind_eq_Some_conv)
    from 1(1)[OF F] show ?thesis
      by (subst drawFilledRectangle_loop.simps) (simp add: True drawLine_init_Some[OF L])
  next
    case False
    with 1(2) show ?thesis by (subst drawFilledRectangle_loop.simps) simp
  qed
next
  case 2
  show ?case by (rule assms)
qed

lemma init_indep_option_pair:
  fixes g :: "SSD1306_state \<Rightarrow> (SSD1306_status_t \<times> SSD1306_state) option"
  assumes "\<And>s rs v. g s = Some rs \<Longrightarrow> g (s\<lparr>initialized := v\<rparr>) = Some (fst rs, (snd rs)\<lparr>initialized := v\<rparr>)"
  shows "g (s\<lparr>initialized := v\<rparr>) = map_option (apsnd (\<lambda>t. t\<lparr>initialized := v\<rparr>)) (g s)"
proof (cases "g s")
  case (Some rs)
  then show ?thesis using assms[OF Some, of v] by (cases rs) simp
next
  case None
  have "g (s\<lparr>initialized := v\<rparr>) = None"
  proof (rule ccontr)
    assume "g (s\<lparr>initialized := v\<rparr>) \<noteq> None"
    then obtain rs where "g (s\<lparr>initialized := v\<rparr>) = Some rs" by blast
    from assms[OF this, of "initialized s"] have "g s \<noteq> None" by simp
    then show False using None by simp
  qed
  then show ?thesis using None by simp
qed

lemma pair_map_init:
  "map_option (Pair LCD_OK) (map_option (\<lambda>t. t\<lparr>initialized := v\<rparr>) r)
      = map_option (apsnd (\<lambda>t. t\<lparr>initialized := v\<rparr>)) (map_option (Pair LCD_OK) r)"
  by (cases r) simp_all

lemma drawRectangle_init_Some:
  assumes "SSD1306_drawRectangle x y w h color s = Some rs"
  shows "SSD1306_drawRectangle x y w h color (s\<lparr>initialized := v\<rparr>)
           = Some (fst rs, (snd rs)\<lparr>initialized := v\<rparr>)"
proof (cases "unat x \<ge> SSD1306_WIDTH \<or> unat y \<ge> SSD1306_HEIGHT")
  case True
  with assms show ?thesis by (auto simp: SSD1306_drawRectangle_def)
next
  case False
  define w' where "w' = (if unat x + unat w \<ge> SSD1306_WIDTH then word_of_nat SSD1306_WIDTH - x else w)"
  define h' where "h' = (if unat y + unat h \<ge> SSD1306_HEIGHT then word_of_nat SSD1306_HEIGHT - y else h)"
  have unf: "SSD1306_drawRectangle x y w h color s =
      (case SSD1306_drawLine x y (x + w') y color s of None \<Rightarrow> None | Some (r1, s1) \<Rightarrow>
      (case SSD1306_drawLine x (y + h') (x + w') (y + h') color s1 of None \<Rightarrow> None | Some (r2, s2) \<Rightarrow>
      (case SSD1306_drawLine x y x (y + h') color s2 of None \<Rightarrow> None | Some (r3, s3) \<Rightarrow>
      (case SSD1306_drawLine (x + w') y (x + w') (y + h') color s3 of None \<Rightarrow> None | Some (r4, s4) \<Rightarrow>
         Some (LCD_OK, s4)))))" for s
    by (simp only: SSD1306_drawRectangle_def Let_def w'_def h'_def False if_False)
  from assms obtain q1 q2 q3 q4 where
    L1: "SSD1306_drawLine x y (x + w') y color s = Some q1" and
    L2: "SSD1306_drawLine x (y + h') (x + w') (y + h') color (snd q1) = Some q2" and
    L3: "SSD1306_drawLine x y x (y + h') color (snd q2) = Some q3" and
    L4: "SSD1306_drawLine (x + w') y (x + w') (y + h') color (snd q3) = Some q4" and
    rs: "rs = (LCD_OK, snd q4)"
    unfolding unf by (auto split: option.splits)
  show ?thesis
    unfolding unf
    by (simp add: drawLine_init_Some[OF L1] drawLine_init_Some[OF L2] drawLine_init_Some[OF L3]
        drawLine_init_Some[OF L4] rs)
qed

lemma drawRectangle_init:
  "SSD1306_drawRectangle x y w h color (s\<lparr>initialized := v\<rparr>) =
     map_option (apsnd (\<lambda>t. t\<lparr>initialized := v\<rparr>)) (SSD1306_drawRectangle x y w h color s)"
  by (rule init_indep_option_pair) (rule drawRectangle_init_Some)

lemma drawRectangle_status:
  "SSD1306_drawRectangle x y w h color s = Some rs \<Longrightarrow> fst rs = LCD_OK \<or> fst rs = INVALID_PARAMS"
  by (auto simp: SSD1306_drawRectangle_def Let_def split: if_splits option.splits)

lemma drawTriangle_init_Some:
  assumes "SSD1306_drawTriangle x1 y1 x2 y2 x3 y3 color s = Some rs"
  shows "SSD1306_drawTriangle x1 y1 x2 y2 x3 y3 color (s\<lparr>initialized := v\<rparr>)
           = Some (fst rs, (snd rs)\<lparr>initialized := v\<rparr>)"
proof -
  from assms obtain q1 q2 q3 where
    L1: "SSD1306_drawLine x1 y1 x2 y2 color s = Some q1" and
    L2: "SSD1306_drawLine x2 y2 x3 y3 color (snd q1) = Some q2" and
    L3: "SSD1306_drawLine x3 y3 x1 y1 color (snd q2) = Some q3" and
    rs: "rs = (LCD_OK, snd q3)"
    unfolding SSD1306_drawTriangle_def by (auto split: option.splits)
  show ?thesis
    unfolding SSD1306_drawTriangle_def
    by (simp add: drawLine_init_Some[OF L1] drawLine_init_Some[OF L2] drawLine_init_Some[OF L3] rs)
qed

lemma drawTriangle_init:
  "SSD1306_drawTriangle x1 y1 x2 y2 x3 y3 color (s\<lparr>initialized := v\<rparr>) =
     map_option (apsnd (\<lambda>t. t\<lparr>initialized := v\<rparr>)) (SSD1306_drawTriangle x1 y1 x2 y2 x3 y3 color s)"
  by (rule init_indep_option_pair) (rule drawTriangle_init_Some)

lemma drawTriangle_status:
  "SSD1306_drawTriangle x1 y1 x2 y2 x3 y3 color s = Some rs \<Longrightarrow> fst rs = LCD_OK"
  by (auto simp: SSD1306_drawTriangle_def split: option.splits)

lemma drawFilledRectangle_init:
  "SSD1306_drawFilledRectangle x y w h color (s\<lparr>initialized := v\<rparr>) =
     map_option (apsnd (\<lambda>t. t\<lparr>initialized := v\<rparr>)) (SSD1306_drawFilledRectangle x y w h color s)"
proof -
  have l: "drawFilledRectangle_loop i a b c d color (s\<lparr>initialized := v\<rparr>)
             = map_option (\<lambda>t. t\<lparr>initialized := v\<rparr>) (drawFilledRectangle_loop i a b c d color s)"
    for i a b c d
    by (rule init_indep_option) (rule drawFilledRectangle_loop_init_Some)
  show ?thesis
  proof (cases "unat x \<ge> SSD1306_WIDTH \<or> unat y \<ge> SSD1306_HEIGHT")
    case True
    then show ?thesis by (simp add: SSD1306_drawFilledRectangle_def)
  next
    case False
    show ?thesis
      unfolding SSD1306_drawFilledRectangle_def Let_def l pair_map_init
      by (simp only: False if_False)
  qed
qed

lemma drawFilledRectangle_status:
  "SSD1306_drawFilledRectangle x y w h color s = Some rs \<Longrightarrow> fst rs = LCD_OK \<or> fst rs = INVALID_PARAMS"
  by (auto simp: SSD1306_drawFilledRectangle_def Let_def split: if_splits)

lemma drawFilledTriangle_loop_init_Some:
  assumes "drawFilledTriangle_loop curpixel numpixels x y x3 y3 num den numadd xinc1 xinc2 yinc1 yinc2 color s = Some t"
  shows "drawFilledTriangle_loop curpixel numpixels x y x3 y3 num den numadd xinc1 xinc2 yinc1 yinc2 color
           (s\<lparr>initialized := v\<rparr>) = Some (t\<lparr>initialized := v\<rparr>)"
proof (rule drawFilledTriangle_loop.raw_induct[where P = "\<lambda>curpixel numpixels x y x3 y3 num den numadd xinc1 xinc2 yinc1 yinc2 color s t.
           drawFilledTriangle_loop curpixel numpixels x y x3 y3 num den numadd xinc1 xinc2 yinc1 yinc2 color
             (s\<lparr>initialized := v\<rparr>) = Some (t\<lparr>initialized := v\<rparr>)"
         and xa = "((((((((((((((curpixel, numpixels), x), y), x3), y3), num), den), numadd), xinc1), xinc2), yinc1), yinc2), color), s)"
         and ya = t, unfolded prod.case],
       goal_cases)
  case (1 f curpixel numpixels x y x3 y3 num den numadd xinc1 xinc2 yinc1 yinc2 color s t)
  show ?case
  proof (cases "sint curpixel \<le> sint numpixels")
    case True
    with 1(2) obtain rs where L: "SSD1306_drawLine x y x3 y3 color s = Some rs"
      and F: "f (curpixel + 1) numpixels
                (if sint (num + numadd) \<ge> sint den then x + xinc1 + xinc2 else x + xinc2)
                (if sint (num + numadd) \<ge> sint den then y + yinc1 + yinc2 else y + yinc2)
                x3 y3
                (if sint (num + numadd) \<ge> sint den then num + numadd - den else num + numadd)
                den numadd xinc1 xinc2 yinc1 yinc2 color (snd rs) = Some t"
      by (simp only: if_True bind_eq_Some_conv) blast
    from 1(1)[OF F] show ?thesis
      by (subst drawFilledTriangle_loop.simps)
         (simp only: True if_True drawLine_init_Some[OF L] Option.bind.simps snd_conv)
  next
    case False
    with 1(2) show ?thesis by (subst drawFilledTriangle_loop.simps) simp
  qed
next
  case 2
  show ?case by (rule assms)
qed

lemma drawFilledTriangle_init:
  "SSD1306_drawFilledTriangle x1 y1 x2 y2 x3 y3 color (s\<lparr>initialized := v\<rparr>) =
     map_option (apsnd (\<lambda>t. t\<lparr>initialized := v\<rparr>)) (SSD1306_drawFilledTriangle x1 y1 x2 y2 x3 y3 color s)"
proof -
  have l: "drawFilledTriangle_loop a b c d e f g h i j k l m color (s\<lparr>initialized := v\<rparr>)
             = map_option (\<lambda>t. t\<lparr>initialized := v\<rparr>) (drawFilledTriangle_loop a b c d e f g h i j k l m color s)"
    for a b c d e f g h i j k l m
    by (rule init_indep_option) (rule drawFilledTriangle_loop_init_Some)
  show ?thesis
    unfolding SSD1306_drawFilledTriangle_def Let_def l pair_map_init
    by (simp only: if_distrib[of "map_option _"] if_cancel)
qed

lemma drawFilledTriangle_status:
  assumes "SSD1306_drawFilledTriangle x1 y1 x2 y2 x3 y3 color s = Some rs"
  shows "fst rs = LCD_OK"
proof -
  have "\<exists>t0. SSD1306_drawFilledTriangle x1 y1 x2 y2 x3 y3 color s = map_option (Pair LCD_OK) t0"
    unfolding SSD1306_drawFilledTriangle_def Let_def
    by (simp only: if_distrib[of "map_option (Pair LCD_OK)", symmetric]) (rule exI, rule refl)
  with assms obtain t0 where "Some rs = map_option (Pair LCD_OK) t0" by auto
  then show ?thesis by (cases t0) auto
qed

lemma drawFilledCircle_loop_init_Some:
  assumes "drawFilledCircle_loop x0 y0 x y f ddF_x ddF_y color s = Some t"
  shows "drawFilledCircle_loop x0 y0 x y f ddF_x ddF_y color (s\<lparr>initialized := v\<rparr>)
           = Some (t\<lparr>initialized := v\<rparr>)"
proof (rule drawFilledCircle_loop.raw_induct[where P = "\<lambda>x0 y0 x y f ddF_x ddF_y color s t.
           drawFilledCircle_loop x0 y0 x y f ddF_x ddF_y color (s\<lparr>initialized := v\<rparr>)
             = Some (t\<lparr>initialized := v\<rparr>)"
         and xa = "((((((((x0, y0), x), y), f), ddF_x), ddF_y), color), s)"
         and ya = t, unfolded prod.case],
       goal_cases)
  case (1 g x0 y0 x y f ddF_x ddF_y color s t)
  show ?case
  proof (cases "sint x < sint y")
    case True
    define y' where "y' = (if 0 \<le> sint f then y - 1 else y)"
    from 1(2) True obtain q1 q2 q3 q4 where
      L1: "SSD1306_drawLine (x0 - (x + 1)) (y0 + y') (x0 + (x + 1)) (y0 + y') color s = Some q1" and
      L2: "SSD1306_drawLine (x0 + (x + 1)) (y0 - y') (x0 - (x + 1)) (y0 - y') color (snd q1) = Some q2" and
      L3: "SSD1306_drawLine (x0 + y') (y0 + (x + 1)) (x0 - y') (y0 + (x + 1)) color (snd q2) = Some q3" and
      L4: "SSD1306_drawLine (x0 + y') (y0 - (x + 1)) (x0 - y') (y0 - (x + 1)) color (snd q3) = Some q4" and
      F: "g x0 y0 (x + 1) y'
            ((if 0 \<le> sint f then f + (ddF_y + 2) else f) + (ddF_x + 2))
            (ddF_x + 2) (if 0 \<le> sint f then ddF_y + 2 else ddF_y) color (snd q4) = Some t"
      unfolding y'_def[symmetric] by (simp only: if_True bind_eq_Some_conv) blast
    from 1(1)[OF F] show ?thesis
      by (subst drawFilledCircle_loop.simps, unfold y'_def[symmetric])
         (simp only: True if_True drawLine_init_Some[OF L1] drawLine_init_Some[OF L2]
            drawLine_init_Some[OF L3] drawLine_init_Some[OF L4] Option.bind.simps snd_conv)
  next
    case False
    with 1(2) show ?thesis by (subst drawFilledCircle_loop.simps) simp
  qed
next
  case 2
  show ?case by (rule assms)
qed

lemma drawFilledCircle_init_Some:
  assumes "SSD1306_drawFilledCircle x0 y0 r color s = Some rs"
  shows "SSD1306_drawFilledCircle x0 y0 r color (s\<lparr>initialized := v\<rparr>)
           = Some (fst rs, (snd rs)\<lparr>initialized := v\<rparr>)"
proof -
  define s4 where "s4 = snd (SSD1306_drawPixel (x0 - r) y0 color
     (snd (SSD1306_drawPixel (x0 + r) y0 color
     (snd (SSD1306_drawPixel x0 (y0 - r) color
     (snd (SSD1306_drawPixel x0 (y0 + r) color s)))))))"
  have unf: "SSD1306_drawFilledCircle x0 y0 r color s =
      (case SSD1306_drawLine (x0 - r) y0 (x0 + r) y0 color s4 of None \<Rightarrow> None | Some (r5, s5) \<Rightarrow>
         map_option (Pair LCD_OK) (drawFilledCircle_loop x0 y0 0 r (1 - r) 1 (- 2 * r) color s5))"
    by (simp only: SSD1306_drawFilledCircle_def Let_def s4_def)
  have unf': "SSD1306_drawFilledCircle x0 y0 r color (s\<lparr>initialized := v\<rparr>) =
      (case SSD1306_drawLine (x0 - r) y0 (x0 + r) y0 color (s4\<lparr>initialized := v\<rparr>) of None \<Rightarrow> None
       | Some (r5, s5) \<Rightarrow>
         map_option (Pair LCD_OK) (drawFilledCircle_loop x0 y0 0 r (1 - r) 1 (- 2 * r) color s5))"
    by (simp only: SSD1306_drawFilledCircle_def Let_def s4_def drawPixel_init_snd)
  from assms obtain q t where
    L: "SSD1306_drawLine (x0 - r) y0 (x0 + r) y0 color s4 = Some q" and
    F: "drawFilledCircle_loop x0 y0 0 r (1 - r) 1 (- 2 * r) color (snd q) = Some t" and
    rs: "rs = (LCD_OK, t)"
    unfolding unf by (auto split: option.splits)
  show ?thesis
    unfolding unf'
    using drawFilledCircle_loop_init_Some[OF F, of v]
    by (simp add: drawLine_init_Some[OF L] rs)
qed

lemma drawFilledCircle_init:
  "SSD1306_drawFilledCircle x0 y0 r color (s\<lparr>initialized := v\<rparr>) =
     map_option (apsnd (\<lambda>t. t\<lparr>initialized := v\<rparr>)) (SSD1306_drawFilledCircle x0 y0 r color s)"
  by (rule init_indep_option_pair) (rule drawFilledCircle_init_Some)

lemma drawFilledCircle_status:
  "SSD1306_drawFilledCircle x0 y0 r color s = Some rs \<Longrightarrow> fst rs = LCD_OK"
  by (auto simp: SSD1306_drawFilledCircle_def Let_def split: option.splits)

lemma drawPixel_not_NO_INIT: "fst (SSD1306_drawPixel x y color s) \<noteq> NO_INIT"
  by (simp add: SSD1306_drawPixel_def Let_def)

lemma gotoXY_not_NO_INIT: "fst (SSD1306_gotoXY x y s) \<noteq> NO_INIT"
  by (simp add: SSD1306_gotoXY_def)

lemma putc_not_NO_INIT: "fst (SSD1306_putc ch font color s) \<noteq> NO_INIT"
  by (simp add: SSD1306_putc_def Let_def)

lemma puts_not_NO_INIT: "fst (SSD1306_puts str font color s) \<noteq> NO_INIT"
  by (simp add: puts_ok)

lemma drawCircle_not_NO_INIT: "fst (SSD1306_drawCircle x0 y0 r color s) \<noteq> NO_INIT"
  by (simp add: SSD1306_drawCircle_def Let_def)

lemma drawBitmap_not_NO_INIT: "fst (SSD1306_drawBitmap x y bitmap w h color s) \<noteq> NO_INIT"
  by (simp add: SSD1306_drawBitmap_def Let_def)

lemma drawLine_not_NO_INIT: "map_option fst (SSD1306_drawLine x0 y0 x1 y1 color s) \<noteq> Some NO_INIT"
  by (cases "SSD1306_drawLine x0 y0 x1 y1 color s") (auto dest: drawLine_status)

lemma drawRectangle_not_NO_INIT: "map_option fst (SSD1306_drawRectangle x y w h color s) \<noteq> Some NO_INIT"
  by (cases "SSD1306_drawRectangle x y w h color s") (auto dest: drawRectangle_status)

lemma drawFilledRectangle_not_NO_INIT:
  "map_option fst (SSD1306_drawFilledRectangle x y w h color s) \<noteq> Some NO_INIT"
  by (cases "SSD1306_drawFilledRectangle x y w h color s") (auto dest: drawFilledRectangle_status)

lemma drawTriangle_not_NO_INIT:
  "map_option fst (SSD1306_drawTriangle x1 y1 x2 y2 x3 y3 color s) \<noteq> Some NO_INIT"
  by (cases "SSD1306_drawTriangle x1 y1 x2 y2 x3 y3 color s") (auto dest: drawTriangle_status)

lemma drawFilledTriangle_not_NO_INIT:
  "map_option fst (SSD1306_drawFilledTriangle x1 y1 x2 y2 x3 y3 color s) \<noteq> Some NO_INIT"
  by (cases "SSD1306_drawFilledTriangle x1 y1 x2 y2 x3 y3 color s") (auto dest: drawFilledTriangle_status)

lemma drawFilledCircle_not_NO_INIT:
  "map_option fst (SSD1306_drawFilledCircle x0 y0 r color s) \<noteq> Some NO_INIT"
  by (cases "SSD1306_drawFilledCircle x0 y0 r color s") (auto dest: drawFilledCircle_status)

lemma guarded_NO_INIT:
  assumes "initialized s = 0"
  shows "SSD1306_fill color s = (NO_INIT, s)" "SSD1306_clear s = (NO_INIT, s)"
    "SSD1306_toggleInvert s = (NO_INIT, s)" "SSD1306_updateScreen s = (NO_INIT, s)"
    "SSD1306_invertDisplay b s = (NO_INIT, s)"
  using assms
  by (simp_all add: SSD1306_fill_def SSD1306_clear_def SSD1306_toggleInvert_def
      SSD1306_updateScreen_def SSD1306_invertDisplay_def)


text \<open>
  Claim C1, as amended. The claim lists sixteen operations. On a device whose \<open>initialized\<close>
  flag is 0:

  \<^item> \<^verbatim>\<open>SSD1306_fill\<close>, \<^verbatim>\<open>SSD1306_clear\<close>, \<^verbatim>\<open>SSD1306_toggleInvert\<close> and
    \<^verbatim>\<open>SSD1306_updateScreen\<close> (and \<^verbatim>\<open>SSD1306_invertDisplay\<close>), where the check of the flag is
    written, return \<open>NO_INIT\<close> and hand back the state as it was: framebuffer, cursor,
    inversion flag and bus traffic;

  \<^item> each of the other twelve, \<^verbatim>\<open>SSD1306_drawPixel\<close>, \<^verbatim>\<open>SSD1306_gotoXY\<close>,
    \<^verbatim>\<open>SSD1306_putc\<close>, \<^verbatim>\<open>SSD1306_puts\<close>, \<^verbatim>\<open>SSD1306_drawLine\<close>,
    \<^verbatim>\<open>SSD1306_drawRectangle\<close>, \<^verbatim>\<open>SSD1306_drawFilledRectangle\<close>,
    \<^verbatim>\<open>SSD1306_drawTriangle\<close>, \<^verbatim>\<open>SSD1306_drawFilledTriangle\<close>, \<^verbatim>\<open>SSD1306_drawCircle\<close>,
    \<^verbatim>\<open>SSD1306_drawFilledCircle\<close> and \<^verbatim>\<open>SSD1306_drawBitmap\<close>, never returns \<open>NO_INIT\<close>,
    and does what it does on the same device with the flag set to any value \<open>v\<close>, 1
    included: the status is the same, and the resulting state is the same but for the flag,
    which the operation leaves as it found it (at \<open>v = 0\<close> the equation reads: the flag
    of the resulting state is 0). For the operations built on
    \<^verbatim>\<open>SSD1306_drawLine\<close>, whose loops need not end on arbitrary arguments, the equation
    also says that the call returns on the one state exactly when it returns on the other.
\<close>

theorem C1_initialized_flag:
  assumes "initialized s = 0"
  shows "SSD1306_fill color s = (NO_INIT, s) \<and> SSD1306_clear s = (NO_INIT, s)
       \<and> SSD1306_toggleInvert s = (NO_INIT, s) \<and> SSD1306_updateScreen s = (NO_INIT, s)
       \<and> SSD1306_invertDisplay b s = (NO_INIT, s)
       \<and> fst (SSD1306_drawPixel x y color s) \<noteq> NO_INIT
       \<and> SSD1306_drawPixel x y color (s\<lparr>initialized := v\<rparr>)
           = apsnd (\<lambda>t. t\<lparr>initialized := v\<rparr>) (SSD1306_drawPixel x y color s)
       \<and> fst (SSD1306_gotoXY x y s) \<noteq> NO_INIT
       \<and> SSD1306_gotoXY x y (s\<lparr>initialized := v\<rparr>)
           = apsnd (\<lambda>t. t\<lparr>initialized := v\<rparr>) (SSD1306_gotoXY x y s)
       \<and> fst (SSD1306_putc ch font color s) \<noteq> NO_INIT
       \<and> SSD1306_putc ch font color (s\<lparr>initialized := v\<rparr>)
           = apsnd (\<lambda>t. t\<lparr>initialized := v\<rparr>) (SSD1306_putc ch font color s)
       \<and> fst (SSD1306_puts str font color s) \<noteq> NO_INIT
       \<and> SSD1306_puts str font color (s\<lparr>initialized := v\<rparr>)
           = apsnd (\<lambda>t. t\<lparr>initialized := v\<rparr>) (SSD1306_puts str font color s)
       \<and> map_option fst (SSD1306_drawLine x0 y0 x1 y1 color s) \<noteq> Some NO_INIT
       \<and> SSD1306_drawLine x0 y0 x1 y1 color (s\<lparr>initialized := v\<rparr>)
           = map_option (apsnd (\<lambda>t. t\<lparr>initialized := v\<rparr>)) (SSD1306_drawLine x0 y0 x1 y1 color s)
       \<and> map_option fst (SSD1306_drawRectangle x y w h color s) \<noteq> Some NO_INIT
       \<and> SSD1306_drawRectangle x y w h color (s\<lparr>initialized := v\<rparr>)
           = map_option (apsnd (\<lambda>t. t\<lparr>initialized := v\<rparr>)) (SSD1306_drawRectangle x y w h color s)
       \<and> map_option fst (SSD1306_drawFilledRectangle x y w h color s) \<noteq> Some NO_INIT
       \<and> SSD1306_drawFilledRectangle x y w h color (s\<lparr>initialized := v\<rparr>)
           = map_option (apsnd (\<lambda>t. t\<lparr>initialized := v\<rparr>)) (SSD1306_drawFilledRectangle x y w h color s)
       \<and> map_option fst (SSD1306_drawTriangle x1 y1 x2 y2 x3 y3 color s) \<noteq> Some NO_INIT
       \<and> SSD1306_drawTriangle x1 y1 x2 y2 x3 y3 color (s\<lparr>initialized := v\<rparr>)
           = map_option (apsnd (\<lambda>t. t\<lparr>initialized := v\<rparr>))
               (SSD1306_drawTriangle x1 y1 x2 y2 x3 y3 color s)
       \<and> map_option fst (SSD1306_drawFilledTriangle x1 y1 x2 y2 x3 y3 color s) \<noteq> Some NO_INIT
       \<and> SSD1306_drawFilledTriangle x1 y1 x2 y2 x3 y3 color (s\<lparr>initialized := v\<rparr>)
           = map_option (apsnd (\<lambda>t. t\<lparr>initialized := v\<rparr>))
               (SSD1306_drawFilledTriangle x1 y1 x2 y2 x3 y3 color s)
       \<and> fst (SSD1306_drawCircle x0 y0 r color s) \<noteq> NO_INIT
       \<and> SSD1306_drawCircle x0 y0 r color (s\<lparr>initialized := v\<rparr>)
           = apsnd (\<lambda>t. t\<lparr>initialized := v\<rparr>) (SSD1306_drawCircle x0 y0 r color s)
       \<and> map_option fst (SSD1306_drawFilledCircle x0 y0 r color s) \<noteq> Some NO_INIT
       \<and> SSD1306_drawFilledCircle x0 y0 r color (s\<lparr>initialized := v\<rparr>)
           = map_option (apsnd (\<lambda>t. t\<lparr>initialized := v\<rparr>)) (SSD1306_drawFilledCircle x0 y0 r color s)
       \<and> fst (SSD1306_drawBitmap x y bitmap w h color s) \<noteq> NO_INIT
       \<and> SSD1306_drawBitmap x y bitmap w h color (s\<lparr>initialized := v\<rparr>)
           = apsnd (\<lambda>t. t\<lparr>initialized := v\<rparr>) (SSD1306_drawBitmap x y bitmap w h color s)"
  by (intro conjI guarded_NO_INIT[OF assms]
      drawPixel_not_NO_INIT drawPixel_init_apsnd gotoXY_not_NO_INIT gotoXY_init
      putc_not_NO_INIT putc_init puts_not_NO_INIT puts_init
      drawLine_not_NO_INIT drawLine_init drawRectangle_not_NO_INIT drawRectangle_init
      drawFilledRectangle_not_NO_INIT drawFilledRectangle_init
      drawTriangle_not_NO_INIT drawTriangle_init
      drawFilledTriangle_not_NO_INIT drawFilledTriangle_init
      drawCircle_not_NO_INIT drawCircle_init
      drawFilledCircle_not_NO_INIT drawFilledCircle_init
      drawBitmap_not_NO_INIT drawBitmap_init)

text \<open>
  Witness for C1 as amended: the power-on state is not initialized; the theorem at that
  state, with the flag set to 1 for the comparison.
\<close>

theorem C1_initialized_flag_witness:
  "initialized power_on = 0
   \<and> SSD1306_fill SSD1306_COLOR_WHITE power_on = (NO_INIT, power_on)
   \<and> SSD1306_clear power_on = (NO_INIT, power_on)
   \<and> SSD1306_toggleInvert power_on = (NO_INIT, power_on)
   \<and> SSD1306_updateScreen power_on = (NO_INIT, power_on)
   \<and> SSD1306_invertDisplay 1 power_on = (NO_INIT, power_on)
   \<and> fst (SSD1306_drawPixel 3 4 SSD1306_COLOR_WHITE power_on) \<noteq> NO_INIT
   \<and> SSD1306_drawPixel 3 4 SSD1306_COLOR_WHITE (power_on\<lparr>initialized := 1\<rparr>)
       = apsnd (\<lambda>t. t\<lparr>initialized := 1\<rparr>) (SSD1306_drawPixel 3 4 SSD1306_COLOR_WHITE power_on)
   \<and> SSD1306_gotoXY 3 4 (power_on\<lparr>initialized := 1\<rparr>)
       = apsnd (\<lambda>t. t\<lparr>initialized := 1\<rparr>) (SSD1306_gotoXY 3 4 power_on)
   \<and> SSD1306_puts [0x48, 0x69] (solid_font 7 10) SSD1306_COLOR_WHITE (power_on\<lparr>initialized := 1\<rparr>)
       = apsnd (\<lambda>t. t\<lparr>initialized := 1\<rparr>)
           (SSD1306_puts [0x48, 0x69] (solid_font 7 10) SSD1306_COLOR_WHITE power_on)
   \<and> SSD1306_drawLine 10 12 20 30 SSD1306_COLOR_WHITE (power_on\<lparr>initialized := 1\<rparr>)
       = map_option (apsnd (\<lambda>t. t\<lparr>initialized := 1\<rparr>))
           (SSD1306_drawLine 10 12 20 30 SSD1306_COLOR_WHITE power_on)
   \<and> SSD1306_drawFilledCircle 10 12 4 SSD1306_COLOR_WHITE (power_on\<lparr>initialized := 1\<rparr>)
       = map_option (apsnd (\<lambda>t. t\<lparr>initialized := 1\<rparr>))
           (SSD1306_drawFilledCircle 10 12 4 SSD1306_COLOR_WHITE power_on)
   \<and> SSD1306_drawBitmap 3 4 (\<lambda>_. 0xFF) 6 5 SSD1306_COLOR_WHITE (power_on\<lparr>initialized := 1\<rparr>)
       = apsnd (\<lambda>t. t\<lparr>initialized := 1\<rparr>)
           (SSD1306_drawBitmap 3 4 (\<lambda>_. 0xFF) 6 5 SSD1306_COLOR_WHITE power_on)"
proof -
  have h: "initialized power_on = 0" by (simp add: power_on_def)
  from C1_initialized_flag[where s = power_on and color = SSD1306_COLOR_WHITE and b = 1 and v = 1
      and x = 3 and y = 4 and ch = "0x41" and font = "solid_font 7 10" and str = "[0x48, 0x69]"
      and ?x0.0 = 10 and ?y0.0 = 12 and ?x1.0 = 20 and ?y1.0 = 30 and ?x2.0 = 5 and ?y2.0 = 40
      and ?x3.0 = 25 and ?y3.0 = 8 and w = 6 and h = 5 and r = 4 and bitmap = "\<lambda>_. 0xFF", OF h]
  show ?thesis using h by blast
qed

text \<open>
  Counterexample to C1 as stated: \<^verbatim>\<open>SSD1306_drawPixel\<close> and \<^verbatim>\<open>SSD1306_gotoXY\<close> have no
  check of the flag. On the power-on state, which is not initialized, drawing the pixel
  (0, 0) returns \<open>LCD_OK\<close> and changes byte 0 of the framebuffer from 0 to 1, and
  \<^verbatim>\<open>SSD1306_gotoXY\<close> returns \<open>LCD_OK\<close> and moves the cursor.
\<close>

theorem C1_drawPixel_counterexample:
  "initialized power_on = 0
   \<and> fst (SSD1306_drawPixel 0 0 SSD1306_COLOR_WHITE power_on) = LCD_OK
   \<and> SSD1306_Buffer power_on ! 0 = 0
   \<and> SSD1306_Buffer (snd (SSD1306_drawPixel 0 0 SSD1306_COLOR_WHITE power_on)) ! 0 = 1
   \<and> SSD1306_gotoXY 5 7 power_on = (LCD_OK, power_on\<lparr>currentX := 5, currentY := 7\<rparr>)"
  by (simp add: power_on_def SSD1306_drawPixel_def SSD1306_gotoXY_def Let_def
      SSD1306_WIDTH_def SSD1306_HEIGHT_def SSD1306_COLOR_WHITE_def SSD1306_COLOR_BLACK_def)

text \<open>
  Claim C2 on the code. \<^verbatim>\<open>SSD1306_init\<close> sets \<open>initialized\<close> to 0, sends the bring-up
  commands and calls \<^verbatim>\<open>SSD1306_clear\<close> before it sets the flag; \<^verbatim>\<open>SSD1306_clear\<close> finds
  the flag at 0 and returns \<open>NO_INIT\<close> at once. So a successful initialisation sends the 29
  command frames and nothing else (no page data), and leaves the framebuffer as it found it:
  after \<^verbatim>\<open>init; fill(WHITE); init\<close> every byte is still 0xFF.
\<close>

theorem C2_init_skips_clear:
  "SSD1306_init 1 True power_on =
     (LCD_OK, power_on\<lparr>i2c_ptr := 1, initialized := 1,
        i2c_bus := map (\<lambda>c. (1, SSD1306_I2C_ADDR, [0x00, c])) init_commands\<rparr>)
   \<and> SSD1306_fill SSD1306_COLOR_WHITE (snd (SSD1306_init 1 True power_on)) =
     (LCD_OK, (snd (SSD1306_init 1 True power_on))\<lparr>SSD1306_Buffer := replicate 1024 0xFF\<rparr>)
   \<and> SSD1306_init 1 True (snd (SSD1306_fill SSD1306_COLOR_WHITE (snd (SSD1306_init 1 True power_on)))) =
     (LCD_OK, power_on\<lparr>i2c_ptr := 1, initialized := 1, SSD1306_Buffer := replicate 1024 0xFF,
        i2c_bus := map (\<lambda>c. (1, SSD1306_I2C_ADDR, [0x00, c])) (init_commands @ init_commands)\<rparr>)"
  by (simp add: init_ready power_on_def SSD1306_fill_def SSD1306_WIDTH_def SSD1306_HEIGHT_def
      SSD1306_COLOR_WHITE_def SSD1306_COLOR_BLACK_def)

section \<open>Inverting the framebuffer\<close>

lemma toggleInvert_loop_length: "length (toggleInvert_loop i buf) = length buf"
  by (induction i buf rule: toggleInvert_loop.induct)
     (subst toggleInvert_loop.simps, simp)

lemma unat32_inc: "unat (i::32 word) < 1024 \<Longrightarrow> unat (i + 1) = unat i + 1"
  by (simp add: unat_word_ariths)

lemma toggleInvert_loop_nth:
  "k < length buf \<Longrightarrow>
   toggleInvert_loop i buf ! k = (if unat i \<le> k \<and> k < 1024 then NOT (buf ! k) else buf ! k)"
proof (induction i buf rule: toggleInvert_loop.induct)
  case (1 i buf)
  show ?case
  proof (cases "unat i < 1024")
    case True
    then have IH: "toggleInvert_loop (i + 1) (buf[unat i := NOT (buf ! unat i)]) ! k =
       (if unat (i + 1) \<le> k \<and> k < 1024 then NOT (buf[unat i := NOT (buf ! unat i)] ! k)
        else buf[unat i := NOT (buf ! unat i)] ! k)"
      using 1 by (simp add: SSD1306_WIDTH_def SSD1306_HEIGHT_def)
    have step: "toggleInvert_loop i buf = toggleInvert_loop (i + 1) (buf[unat i := NOT (buf ! unat i)])"
      using True by (subst toggleInvert_loop.simps) (simp add: SSD1306_WIDTH_def SSD1306_HEIGHT_def)
    have "k = unat i \<or> k < unat i \<or> unat i + 1 \<le> k" by linarith
    then show ?thesis
      using "1.prems" True unfolding step IH unat32_inc[OF True]
      by (auto simp: nth_list_update)
  next
    case False
    then have "toggleInvert_loop i buf = buf"
      by (subst toggleInvert_loop.simps) (simp add: SSD1306_WIDTH_def SSD1306_HEIGHT_def)
    moreover have "\<not> (unat i \<le> k \<and> k < 1024)" using False by linarith
    ultimately show ?thesis by auto
  qed
qed

lemma toggleInvert_loop_map:
  assumes "length buf = 1024"
  shows "toggleInvert_loop 0 buf = map NOT buf"
  using assms by (intro nth_equalityI) (simp_all add: toggleInvert_loop_length toggleInvert_loop_nth)

lemma toggleInvert_ok:
  assumes "initialized s \<noteq> 0" "length (SSD1306_Buffer s) = 1024"
  shows "SSD1306_toggleInvert s =
           (LCD_OK, s\<lparr>SSD1306_Buffer := map NOT (SSD1306_Buffer s), inverted := lnot (inverted s)\<rparr>)"
  using assms by (simp add: SSD1306_toggleInvert_def toggleInvert_loop_map)

text \<open>
  Claim C6. On an initialized device (framebuffer of 1024 bytes, inversion flag 0 or 1, the
  only values the driver ever stores in it) one call of \<^verbatim>\<open>SSD1306_toggleInvert\<close> returns
  \<open>LCD_OK\<close>, complements every byte of the framebuffer and flips the flag; a second call
  gives back the original state, byte for byte, flag included.
\<close>

theorem C6_toggleInvert_twice:
  assumes "initialized s \<noteq> 0" and "length (SSD1306_Buffer s) = 1024"
    and "inverted s = 0 \<or> inverted s = 1"
  shows "SSD1306_toggleInvert s =
           (LCD_OK, s\<lparr>SSD1306_Buffer := map NOT (SSD1306_Buffer s),
                        inverted := (if inverted s = 0 then 1 else 0)\<rparr>)
         \<and> SSD1306_toggleInvert (snd (SSD1306_toggleInvert s)) = (LCD_OK, s)"
proof -
  let ?s1 = "s\<lparr>SSD1306_Buffer := map NOT (SSD1306_Buffer s), inverted := lnot (inverted s)\<rparr>"
  have one: "SSD1306_toggleInvert s = (LCD_OK, ?s1)" using assms(1,2) by (rule toggleInvert_ok)
  have "SSD1306_toggleInvert ?s1 =
          (LCD_OK, ?s1\<lparr>SSD1306_Buffer := map NOT (SSD1306_Buffer ?s1), inverted := lnot (inverted ?s1)\<rparr>)"
    using assms by (intro toggleInvert_ok) simp_all
  moreover have "map NOT (map NOT (SSD1306_Buffer s)) = SSD1306_Buffer s"
    by (simp add: comp_def)
  moreover have "lnot (lnot (inverted s)) = inverted s"
    using assms(3) by (auto simp: lnot_def)
  ultimately have two: "SSD1306_toggleInvert ?s1 = (LCD_OK, s)" by simp
  show ?thesis using one two by (simp add: lnot_def)
qed

text \<open>Witness for C6: the all-zero framebuffer becomes all 0xFF, then all zero again.\<close>

theorem C6_toggleInvert_twice_witness:
  "SSD1306_toggleInvert (power_on\<lparr>initialized := 1\<rparr>) =
     (LCD_OK, power_on\<lparr>initialized := 1, SSD1306_Buffer := replicate 1024 0xFF, inverted := 1\<rparr>)
   \<and> SSD1306_toggleInvert (snd (SSD1306_toggleInvert (power_on\<lparr>initialized := 1\<rparr>)))
       = (LCD_OK, power_on\<lparr>initialized := 1\<rparr>)"
proof -
  have "map NOT (replicate 1024 (0::8 word)) = replicate 1024 0xFF" by simp
  then show ?thesis
    using C6_toggleInvert_twice [of "power_on\<lparr>initialized := 1\<rparr>"]
    unfolding power_on_def by auto
qed

section \<open>Drawing one pixel\<close>

text \<open>
  Claim C4. For a framebuffer of 1024 bytes and a colour of the enumeration:
  \<^verbatim>\<open>SSD1306_drawPixel\<close> returns \<open>INVALID_PARAMS\<close>, its error for coordinates off the panel,
  and leaves the whole state unchanged when \<open>x \<ge> SSD1306_WIDTH\<close> or
  \<open>y \<ge> SSD1306_HEIGHT\<close>. Otherwise it returns \<open>LCD_OK\<close> and changes nothing but the
  framebuffer, where every byte other than the one at offset \<open>x + (y >> 3) * SSD1306_WIDTH\<close>
  keeps its value and, in that byte, every bit other than bit \<open>y & 7\<close> keeps its value;
  bit \<open>y & 7\<close> becomes the effective colour, which is on exactly when the colour is
  \<open>WHITE\<close> exclusive-or the inversion flag is set.
\<close>

theorem C4_drawPixel:
  assumes len: "length (SSD1306_Buffer s) = 1024"
    and col: "color = SSD1306_COLOR_BLACK \<or> color = SSD1306_COLOR_WHITE"
  shows "(SSD1306_WIDTH \<le> unat x \<or> SSD1306_HEIGHT \<le> unat y \<longrightarrow>
            SSD1306_drawPixel x y color s = (INVALID_PARAMS, s))
       \<and> (unat x < SSD1306_WIDTH \<and> unat y < SSD1306_HEIGHT \<longrightarrow>
            (\<exists>buf. SSD1306_drawPixel x y color s = (LCD_OK, s\<lparr>SSD1306_Buffer := buf\<rparr>)
               \<and> length buf = 1024
               \<and> (\<forall>i. i \<noteq> unat x + unat (drop_bit 3 y) * SSD1306_WIDTH \<longrightarrow>
                      buf ! i = SSD1306_Buffer s ! i)
               \<and> (\<forall>k. bit (buf ! (unat x + unat (drop_bit 3 y) * SSD1306_WIDTH)) k =
                      (if k = unat (y AND 0x07)
                       then (color = SSD1306_COLOR_WHITE) \<noteq> (inverted s \<noteq> 0)
                       else bit (SSD1306_Buffer s ! (unat x + unat (drop_bit 3 y) * SSD1306_WIDTH)) k))))"
proof (intro conjI impI)
  assume "SSD1306_WIDTH \<le> unat x \<or> SSD1306_HEIGHT \<le> unat y"
  then show "SSD1306_drawPixel x y color s = (INVALID_PARAMS, s)"
    by (simp add: SSD1306_drawPixel_def)
next
  assume "unat x < SSD1306_WIDTH \<and> unat y < SSD1306_HEIGHT"
  then have xy: "unat x < 128" "unat y < 64" by (simp_all add: SSD1306_WIDTH_def SSD1306_HEIGHT_def)
  let ?i = "unat x + unat y div 8 * 128"
  let ?b = "SSD1306_Buffer s ! ?i"
  let ?v = "if lit color s then ?b OR push_bit (unat y mod 8) 1 else ?b AND NOT (push_bit (unat y mod 8) 1)"
  let ?buf = "(SSD1306_Buffer s)[?i := ?v]"
  have in': "SSD1306_drawPixel x y color s = (LCD_OK, s\<lparr>SSD1306_Buffer := ?buf\<rparr>)"
    using xy col by (rule drawPixel_in)
  have idx: "unat x + unat (drop_bit 3 y) * SSD1306_WIDTH = ?i"
    by (simp add: unat_drop3 SSD1306_WIDTH_def)
  have ib: "?i < length (SSD1306_Buffer s)" using xy len pixel_index_bound by simp
  have k8: "unat y mod 8 < 8" by simp
  have bits: "bit ?v k = (if k = unat y mod 8 then lit color s else bit ?b k)" for k
    using k8 by (simp add: bit_set8_exp bit_clear8_exp)
  have "length ?buf = 1024" using len by simp
  moreover have "\<forall>i. i \<noteq> ?i \<longrightarrow> ?buf ! i = SSD1306_Buffer s ! i" by simp
  moreover have "\<forall>k. bit (?buf ! ?i) k =
      (if k = unat y mod 8 then (color = SSD1306_COLOR_WHITE) \<noteq> (inverted s \<noteq> 0) else bit ?b k)"
    using ib bits by (simp add: lit_def)
  ultimately show "\<exists>buf. SSD1306_drawPixel x y color s = (LCD_OK, s\<lparr>SSD1306_Buffer := buf\<rparr>)
               \<and> length buf = 1024
               \<and> (\<forall>i. i \<noteq> unat x + unat (drop_bit 3 y) * SSD1306_WIDTH \<longrightarrow>
                      buf ! i = SSD1306_Buffer s ! i)
               \<and> (\<forall>k. bit (buf ! (unat x + unat (drop_bit 3 y) * SSD1306_WIDTH)) k =
                      (if k = unat (y AND 0x07)
                       then (color = SSD1306_COLOR_WHITE) \<noteq> (inverted s \<noteq> 0)
                       else bit (SSD1306_Buffer s ! (unat x + unat (drop_bit 3 y) * SSD1306_WIDTH)) k))"
    unfolding idx unat_and7 using in' by blast
qed

text \<open>
  Witness for C4 on the power-on framebuffer: (200, 3) is rejected; (5, 10) sets bit 2 of
  byte 133 and leaves byte 132 at zero.
\<close>

theorem C4_drawPixel_witness:
  "SSD1306_drawPixel 200 3 SSD1306_COLOR_WHITE power_on = (INVALID_PARAMS, power_on)
   \<and> fst (SSD1306_drawPixel 5 10 SSD1306_COLOR_WHITE power_on) = LCD_OK
   \<and> bit (SSD1306_Buffer (snd (SSD1306_drawPixel 5 10 SSD1306_COLOR_WHITE power_on)) ! 133) 2
   \<and> SSD1306_Buffer (snd (SSD1306_drawPixel 5 10 SSD1306_COLOR_WHITE power_on)) ! 132 = 0"
proof -
  have len: "length (SSD1306_Buffer power_on) = 1024" by (simp add: power_on_def)
  have col: "SSD1306_COLOR_WHITE = SSD1306_COLOR_BLACK \<or> SSD1306_COLOR_WHITE = SSD1306_COLOR_WHITE"
    by simp
  have out: "SSD1306_WIDTH \<le> unat (200::16 word) \<or> SSD1306_HEIGHT \<le> unat (3::16 word)"
    by (simp add: SSD1306_WIDTH_def)
  have inside: "unat (5::16 word) < SSD1306_WIDTH \<and> unat (10::16 word) < SSD1306_HEIGHT"
    by (simp add: SSD1306_WIDTH_def SSD1306_HEIGHT_def)
  have idx: "unat (5::16 word) + unat (drop_bit 3 (10::16 word)) * SSD1306_WIDTH = 133"
    by (simp add: unat_drop3 SSD1306_WIDTH_def)
  have k: "unat ((10::16 word) AND 0x07) = 2" by (simp add: unat_and7)
  from C4_drawPixel [OF len col, of 200 3] out
  have a: "SSD1306_drawPixel 200 3 SSD1306_COLOR_WHITE power_on = (INVALID_PARAMS, power_on)"
    by blast
  from C4_drawPixel [OF len col, of 5 10] inside obtain buf where
    b: "SSD1306_drawPixel 5 10 SSD1306_COLOR_WHITE power_on = (LCD_OK, power_on\<lparr>SSD1306_Buffer := buf\<rparr>)"
    and other: "\<forall>i. i \<noteq> 133 \<longrightarrow> buf ! i = SSD1306_Buffer power_on ! i"
    and bits: "\<forall>ka. bit (buf ! 133) ka =
                 (if ka = 2 then (SSD1306_COLOR_WHITE = SSD1306_COLOR_WHITE) \<noteq> (inverted power_on \<noteq> 0)
                  else bit (SSD1306_Buffer power_on ! 133) ka)"
    unfolding idx k by blast
  have "bit (buf ! 133) 2" using bits by (simp add: power_on_def)
  moreover have "buf ! 132 = 0" using other by (simp add: power_on_def)
  ultimately show ?thesis using a b by simp
qed

section \<open>Flushing the framebuffer to the bus\<close>

lemma WRITECOMMAND_fields [simp]:
  "i2c_ptr (SSD1306_WRITECOMMAND c s) = i2c_ptr s"
  "SSD1306_Buffer (SSD1306_WRITECOMMAND c s) = SSD1306_Buffer s"
  "i2c_bus (SSD1306_WRITECOMMAND c s) = i2c_bus s @ [(i2c_ptr s, SSD1306_I2C_ADDR, [0x00, c])]"
  by (simp_all add: SSD1306_WRITECOMMAND_def SSD1306_I2C_Write_def)

lemma unat8_inc: "(m::8 word) < 8 \<Longrightarrow> unat (m + 1) = unat m + 1"
  by (simp add: word_less_nat_alt unat_word_ariths)

lemma updateScreen_loop_frames:
  "updateScreen_loop m s =
     s\<lparr>i2c_bus := i2c_bus s @ concat (map (\<lambda>k.
         [(i2c_ptr s, SSD1306_I2C_ADDR, [0x00, 0xB0 + word_of_nat k]),
          (i2c_ptr s, SSD1306_I2C_ADDR, [0x00, 0x00]),
          (i2c_ptr s, SSD1306_I2C_ADDR, [0x00, 0x10]),
          (i2c_ptr s, SSD1306_I2C_ADDR, 0x40 # take 128 (drop (128 * k) (SSD1306_Buffer s)))])
         [unat m..<8])\<rparr>"
proof (induction m s rule: updateScreen_loop.induct)
  case (1 m s)
  show ?case
  proof (cases "m < 8")
    case True
    let ?s3 = "SSD1306_WRITECOMMAND 0x10 (SSD1306_WRITECOMMAND 0x00 (SSD1306_WRITECOMMAND (0xB0 + m) s))"
    let ?s4 = "SSD1306_I2C_WriteMulti SSD1306_I2C_ADDR 0x40
                 (drop (SSD1306_WIDTH * unat m) (SSD1306_Buffer s)) (word_of_nat SSD1306_WIDTH) ?s3"
    have s4: "?s4 = s\<lparr>i2c_bus := i2c_bus s @
         [(i2c_ptr s, SSD1306_I2C_ADDR, [0x00, 0xB0 + m]),
          (i2c_ptr s, SSD1306_I2C_ADDR, [0x00, 0x00]),
          (i2c_ptr s, SSD1306_I2C_ADDR, [0x00, 0x10]),
          (i2c_ptr s, SSD1306_I2C_ADDR, 0x40 # take 128 (drop (128 * unat m) (SSD1306_Buffer s)))]\<rparr>"
      by (simp add: SSD1306_I2C_WriteMulti_def SSD1306_WIDTH_def SSD1306_I2C_DATATMP_SIZE_def
          SSD1306_WRITECOMMAND_def SSD1306_I2C_Write_def)
    have step: "updateScreen_loop m s = updateScreen_loop (m + 1) ?s4"
      using True by (subst updateScreen_loop.simps) (simp add: Let_def)
    have IH: "updateScreen_loop (m + 1) ?s4 =
       ?s4\<lparr>i2c_bus := i2c_bus ?s4 @ concat (map (\<lambda>k.
         [(i2c_ptr ?s4, SSD1306_I2C_ADDR, [0x00, 0xB0 + word_of_nat k]),
          (i2c_ptr ?s4, SSD1306_I2C_ADDR, [0x00, 0x00]),
          (i2c_ptr ?s4, SSD1306_I2C_ADDR, [0x00, 0x10]),
          (i2c_ptr ?s4, SSD1306_I2C_ADDR, 0x40 # take 128 (drop (128 * k) (SSD1306_Buffer ?s4)))])
         [unat (m + 1)..<8])\<rparr>"
      using "1.IH"[OF True refl refl refl refl] by simp
    have m8: "unat m < 8" using True by (simp add: word_less_nat_alt)
    then have upt: "[unat m..<8] = unat m # [unat m + 1..<8]" by (simp add: upt_conv_Cons)
    show ?thesis
      unfolding step IH unfolding s4 upt unat8_inc[OF True] by simp
  next
    case False
    then have "updateScreen_loop m s = s" by (subst updateScreen_loop.simps) simp
    moreover have "[unat m..<8] = []" using False by (simp add: word_less_nat_alt)
    ultimately show ?thesis by simp
  qed
qed

text \<open>
  Claim C10, as amended. A multi-byte write whose count exceeds
  \<^verbatim>\<open>SSD1306_I2C_DATATMP_SIZE\<close> is dropped: \<^verbatim>\<open>SSD1306_I2C_WriteMulti\<close>, which returns
  \<^verbatim>\<open>void\<close>, transmits nothing and changes nothing, so no error reaches its caller. The
  driver's own flush never asks for such a write: on an initialized device
  \<^verbatim>\<open>SSD1306_updateScreen\<close> returns \<open>LCD_OK\<close> after sending, for each of the 8 pages, the
  three addressing commands and one data frame made of the control byte 0x40 and the
  \<^verbatim>\<open>SSD1306_WIDTH\<close> = 128 bytes of the page.
\<close>

theorem C10_oversized_write_dropped:
  "(SSD1306_I2C_DATATMP_SIZE < unat count \<longrightarrow> SSD1306_I2C_WriteMulti addr reg dat count s = s)
   \<and> (initialized s \<noteq> 0 \<longrightarrow>
        SSD1306_updateScreen s =
          (LCD_OK, s\<lparr>i2c_bus := i2c_bus s @ concat (map (\<lambda>k.
             [(i2c_ptr s, SSD1306_I2C_ADDR, [0x00, 0xB0 + word_of_nat k]),
              (i2c_ptr s, SSD1306_I2C_ADDR, [0x00, 0x00]),
              (i2c_ptr s, SSD1306_I2C_ADDR, [0x00, 0x10]),
              (i2c_ptr s, SSD1306_I2C_ADDR, 0x40 # take 128 (drop (128 * k) (SSD1306_Buffer s)))])
             [0..<8])\<rparr>))"
  by (simp add: SSD1306_I2C_WriteMulti_def SSD1306_updateScreen_def updateScreen_loop_frames)

text \<open>
  Witness for C10 as amended: a write of 257 bytes leaves the bus log empty; a flush of the
  initialized power-on buffer sends 32 frames.
\<close>

theorem C10_oversized_write_dropped_witness:
  "SSD1306_I2C_WriteMulti SSD1306_I2C_ADDR 0x40 (replicate 300 0xAA) 257 power_on = power_on
   \<and> fst (SSD1306_updateScreen (power_on\<lparr>initialized := 1\<rparr>)) = LCD_OK
   \<and> length (i2c_bus (snd (SSD1306_updateScreen (power_on\<lparr>initialized := 1\<rparr>)))) = 32"
proof -
  have big: "SSD1306_I2C_DATATMP_SIZE < unat (257::16 word)"
    by (simp add: SSD1306_I2C_DATATMP_SIZE_def)
  have ini: "initialized (power_on\<lparr>initialized := 1\<rparr>) \<noteq> 0" by simp
  from C10_oversized_write_dropped [where count = 257 and addr = SSD1306_I2C_ADDR and reg = "0x40"
      and dat = "replicate 300 0xAA" and s = power_on] big
  have a: "SSD1306_I2C_WriteMulti SSD1306_I2C_ADDR 0x40 (replicate 300 0xAA) 257 power_on = power_on"
    by blast
  from C10_oversized_write_dropped [where s = "power_on\<lparr>initialized := 1\<rparr>"] ini
  have b: "SSD1306_updateScreen (power_on\<lparr>initialized := 1\<rparr>) =
          (LCD_OK, power_on\<lparr>initialized := 1, i2c_bus := i2c_bus (power_on\<lparr>initialized := 1\<rparr>) @ concat (map (\<lambda>k.
             [(i2c_ptr (power_on\<lparr>initialized := 1\<rparr>), SSD1306_I2C_ADDR, [0x00, 0xB0 + word_of_nat k]),
              (i2c_ptr (power_on\<lparr>initialized := 1\<rparr>), SSD1306_I2C_ADDR, [0x00, 0x00]),
              (i2c_ptr (power_on\<lparr>initialized := 1\<rparr>), SSD1306_I2C_ADDR, [0x00, 0x10]),
              (i2c_ptr (power_on\<lparr>initialized := 1\<rparr>), SSD1306_I2C_ADDR, 0x40 # take 128 (drop (128 * k) (SSD1306_Buffer (power_on\<lparr>initialized := 1\<rparr>))))])
             [0..<8])\<rparr>)"
    by blast
  have "[0..<8] = [0, 1, 2, 3, 4, 5, 6, 7::nat]" by code_simp
  then show ?thesis using a unfolding b by (simp add: power_on_def)
qed

text \<open>
  Counterexample to C10 as stated: a write of 257 bytes, more than the 256 bytes of
  \<^verbatim>\<open>data_tmp\<close>, comes back with the state it was given. Nothing was put on the bus and the
  function has no result in which an error could be reported.
\<close>

theorem C10_silent_drop_counterexample:
  "SSD1306_I2C_DATATMP_SIZE < unat (257::16 word)
   \<and> SSD1306_I2C_WriteMulti SSD1306_I2C_ADDR 0x40 (replicate 300 0xAA) 257 (power_on\<lparr>initialized := 1\<rparr>)
       = power_on\<lparr>initialized := 1\<rparr>
   \<and> i2c_bus (SSD1306_I2C_WriteMulti SSD1306_I2C_ADDR 0x40 (replicate 300 0xAA) 257
        (power_on\<lparr>initialized := 1\<rparr>)) = []"
  by (simp add: SSD1306_I2C_WriteMulti_def SSD1306_I2C_DATATMP_SIZE_def power_on_def)

section \<open>Text: one glyph\<close>

lemma uint_ucast_8_16: "uint (ucast (j::8 word) :: 16 word) = uint j"
  by (simp add: uint_up_ucast is_up)

lemma uint_add16: "uint a + uint b < 65536 \<Longrightarrow> uint (a + b :: 16 word) = uint a + uint b"
  using uint_add_lem[of a b] by simp

lemma uint8_inc: "(j::8 word) < w \<Longrightarrow> uint (j + 1) = uint j + 1"
proof -
  assume "j < w"
  then have "uint j < uint w" by (simp add: word_less_def)
  moreover have "uint w < 256" using uint_lt2p[of w] by simp
  ultimately have "uint j + uint (1::8 word) < 2 ^ LENGTH(8)" by simp
  then show ?thesis using uint_add_lem[of j 1] by simp
qed

lemma glyph_test:
  "(push_bit k (ucast (b::16 word) :: 32 word) AND 0x8000 \<noteq> 0) \<longleftrightarrow> (k \<le> 15 \<and> bit b (15 - k))"
proof -
  have "(0x8000 :: 32 word) = 2 ^ 15" by simp
  then have "(push_bit k (ucast b :: 32 word) AND 0x8000 \<noteq> 0) \<longleftrightarrow> bit (push_bit k (ucast b :: 32 word)) 15"
    by (simp only: and_exp_eq_0_iff_not_bit) simp
  also have "\<dots> \<longleftrightarrow> (k \<le> 15 \<and> bit b (15 - k))"
    by (auto simp: bit_push_bit_iff bit_ucast_iff)
  finally show ?thesis .
qed

lemma lit_lnot:
  "c = SSD1306_COLOR_BLACK \<or> c = SSD1306_COLOR_WHITE \<Longrightarrow> lit (lnot c) s \<longleftrightarrow> \<not> lit c s"
  by (auto simp: lit_def lnot_def SSD1306_COLOR_BLACK_def SSD1306_COLOR_WHITE_def)

lemma lnot_color:
  "c = SSD1306_COLOR_BLACK \<or> c = SSD1306_COLOR_WHITE \<Longrightarrow>
   lnot c = SSD1306_COLOR_BLACK \<or> lnot c = SSD1306_COLOR_WHITE"
  by (auto simp: lnot_def SSD1306_COLOR_BLACK_def SSD1306_COLOR_WHITE_def)

lemma lit_drawPixel [simp]: "lit c (snd (SSD1306_drawPixel x y c' s)) = lit c s"
  by (simp add: lit_def)

lemma putc_col_loop_frame:
  "currentX (putc_col_loop j b i font color s) = currentX s
   \<and> currentY (putc_col_loop j b i font color s) = currentY s
   \<and> inverted (putc_col_loop j b i font color s) = inverted s
   \<and> initialized (putc_col_loop j b i font color s) = initialized s
   \<and> i2c_ptr (putc_col_loop j b i font color s) = i2c_ptr s
   \<and> i2c_bus (putc_col_loop j b i font color s) = i2c_bus s
   \<and> length (SSD1306_Buffer (putc_col_loop j b i font color s)) = length (SSD1306_Buffer s)"
proof (induction j b i font color s rule: putc_col_loop.induct)
  case (1 j b i font color s)
  show ?case
  proof (cases "j < fontWidth font")
    case True
    then show ?thesis using "1.IH" by (subst (1 2 3 4 5 6 7) putc_col_loop.simps) auto
  next
    case False
    then show ?thesis by (subst (1 2 3 4 5 6 7) putc_col_loop.simps) simp
  qed
qed

lemma putc_col_loop_pixel:
  assumes "length (SSD1306_Buffer s) = 1024"
    and "color = SSD1306_COLOR_BLACK \<or> color = SSD1306_COLOR_WHITE"
    and "uint (currentX s) + uint (fontWidth font) \<le> 128"
    and "uint (currentY s) + uint i < 64"
  shows "pixel_on (SSD1306_Buffer (putc_col_loop j b i font color s)) p q =
           (if q = uint (currentY s) + uint i \<and> uint (currentX s) + uint j \<le> p
                \<and> p < uint (currentX s) + uint (fontWidth font)
            then (nat (p - uint (currentX s)) \<le> 15 \<and> bit b (15 - nat (p - uint (currentX s))))
                   = lit color s
            else pixel_on (SSD1306_Buffer s) p q)"
  using assms
proof (induction j b i font color s rule: putc_col_loop.induct)
  case (1 j b i font color s)
  show ?case
  proof (cases "j < fontWidth font")
    case False
    then have "putc_col_loop j b i font color s = s" by (subst putc_col_loop.simps) simp
    moreover have "\<not> (uint (currentX s) + uint j \<le> p \<and> p < uint (currentX s) + uint (fontWidth font))"
      using False by (simp add: word_less_def)
    ultimately show ?thesis by auto
  next
    case True
    let ?x = "currentX s + ucast j" and ?y = "currentY s + ucast i"
    let ?c = "if push_bit (unat j) (ucast b :: 32 word) AND 0x8000 \<noteq> 0 then color else lnot color"
    let ?s' = "snd (SSD1306_drawPixel ?x ?y ?c s)"
    have jw: "uint j < uint (fontWidth font)" using True by (simp add: word_less_def)
    have ux: "uint ?x = uint (currentX s) + uint j"
      using jw "1.prems"(3) by (simp add: uint_add16 uint_ucast_8_16)
    have uy: "uint ?y = uint (currentY s) + uint i"
      using "1.prems"(4) by (simp add: uint_add16 uint_ucast_8_16)
    have inx: "unat ?x < 128" using ux jw "1.prems"(3) uint_less_iff_unat[of ?x 128] by simp
    have iny: "unat ?y < 64" using uy "1.prems"(4) uint_less_iff_unat[of ?y 64] by simp
    have colc: "?c = SSD1306_COLOR_BLACK \<or> ?c = SSD1306_COLOR_WHITE"
      using "1.prems"(2) lnot_color by auto
    have px: "pixel_on (SSD1306_Buffer ?s') p q =
                (if p = uint ?x \<and> q = uint ?y then lit ?c s else pixel_on (SSD1306_Buffer s) p q)"
      using drawPixel_pixel[OF "1.prems"(1) colc, of ?x ?y p q] inx iny by simp
    have litc: "lit ?c s = ((unat j \<le> 15 \<and> bit b (15 - unat j)) = lit color s)"
      using "1.prems"(2) by (auto simp: glyph_test lit_lnot)
    have s'_eq: "(if push_bit (unat j) (ucast b :: 32 word) AND 0x8000 \<noteq> 0
           then snd (SSD1306_drawPixel ?x ?y color s)
           else snd (SSD1306_drawPixel ?x ?y (lnot color) s)) = ?s'"
      by simp
    have step: "putc_col_loop j b i font color s = putc_col_loop (j + 1) b i font color ?s'"
      using True by (subst putc_col_loop.simps) (simp only: s'_eq if_True)
    have IH: "pixel_on (SSD1306_Buffer (putc_col_loop (j + 1) b i font color ?s')) p q =
           (if q = uint (currentY s) + uint i \<and> uint (currentX s) + uint (j + 1) \<le> p
                \<and> p < uint (currentX s) + uint (fontWidth font)
            then (nat (p - uint (currentX s)) \<le> 15 \<and> bit b (15 - nat (p - uint (currentX s))))
                   = lit color s
            else pixel_on (SSD1306_Buffer ?s') p q)"
      using "1.IH"[OF True, unfolded s'_eq] "1.prems" by simp
    have j1: "uint (j + 1) = uint j + 1" using True by (rule uint8_inc)
    have nj: "nat (uint j) = unat j" by simp
    show ?thesis
    proof (cases "p = uint (currentX s) + uint j \<and> q = uint (currentY s) + uint i")
      case True
      then have "nat (p - uint (currentX s)) = unat j" by simp
      then show ?thesis unfolding step IH px ux uy j1 litc using True jw by simp
    next
      case False
      then show ?thesis unfolding step IH px ux uy j1 by auto
    qed
  qed
qed

lemma putc_row_loop_frame:
  "currentX (putc_row_loop i ch font color s) = currentX s
   \<and> currentY (putc_row_loop i ch font color s) = currentY s
   \<and> inverted (putc_row_loop i ch font color s) = inverted s
   \<and> initialized (putc_row_loop i ch font color s) = initialized s
   \<and> i2c_ptr (putc_row_loop i ch font color s) = i2c_ptr s
   \<and> i2c_bus (putc_row_loop i ch font color s) = i2c_bus s
   \<and> length (SSD1306_Buffer (putc_row_loop i ch font color s)) = length (SSD1306_Buffer s)"
proof (induction i ch font color s rule: putc_row_loop.induct)
  case (1 i ch font color s)
  show ?case
  proof (cases "i < fontHeight font")
    case True
    then show ?thesis
      using "1.IH"[OF True refl] by (subst (1 2 3 4 5 6 7) putc_row_loop.simps) (simp add: putc_col_loop_frame)
  next
    case False
    then show ?thesis by (subst (1 2 3 4 5 6 7) putc_row_loop.simps) simp
  qed
qed

lemma lit_frame: "inverted t = inverted s \<Longrightarrow> lit c t = lit c s"
  by (simp add: lit_def)

lemma putc_row_loop_pixel:
  assumes "length (SSD1306_Buffer s) = 1024"
    and "color = SSD1306_COLOR_BLACK \<or> color = SSD1306_COLOR_WHITE"
    and "uint (currentX s) + uint (fontWidth font) \<le> 128"
    and "uint (currentY s) + uint (fontHeight font) \<le> 64"
  shows "pixel_on (SSD1306_Buffer (putc_row_loop i ch font color s)) p q =
           (if uint (currentY s) + uint i \<le> q \<and> q < uint (currentY s) + uint (fontHeight font)
                \<and> uint (currentX s) \<le> p \<and> p < uint (currentX s) + uint (fontWidth font)
            then (nat (p - uint (currentX s)) \<le> 15
                  \<and> bit (data font ((uint ch - 32) * uint (fontHeight font) + (q - uint (currentY s))))
                        (15 - nat (p - uint (currentX s))))
                   = lit color s
            else pixel_on (SSD1306_Buffer s) p q)"
  using assms
proof (induction i ch font color s rule: putc_row_loop.induct)
  case (1 i ch font color s)
  show ?case
  proof (cases "i < fontHeight font")
    case False
    then have "putc_row_loop i ch font color s = s" by (subst putc_row_loop.simps) simp
    moreover have "\<not> (uint (currentY s) + uint i \<le> q \<and> q < uint (currentY s) + uint (fontHeight font))"
      using False by (simp add: word_less_def)
    ultimately show ?thesis by auto
  next
    case True
    let ?b = "data font ((uint ch - 32) * uint (fontHeight font) + uint i)"
    let ?s' = "putc_col_loop 0 ?b i font color s"
    have ih: "uint i < uint (fontHeight font)" using True by (simp add: word_less_def)
    have fr: "currentX ?s' = currentX s" "currentY ?s' = currentY s" "inverted ?s' = inverted s"
      "length (SSD1306_Buffer ?s') = length (SSD1306_Buffer s)"
      using putc_col_loop_frame[of 0 ?b i font color s] by simp_all
    have step: "putc_row_loop i ch font color s = putc_row_loop (i + 1) ch font color ?s'"
      using True by (subst putc_row_loop.simps) (simp add: Let_def)
    have row: "pixel_on (SSD1306_Buffer ?s') p q =
           (if q = uint (currentY s) + uint i \<and> uint (currentX s) \<le> p
                \<and> p < uint (currentX s) + uint (fontWidth font)
            then (nat (p - uint (currentX s)) \<le> 15 \<and> bit ?b (15 - nat (p - uint (currentX s))))
                   = lit color s
            else pixel_on (SSD1306_Buffer s) p q)"
      using putc_col_loop_pixel[OF "1.prems"(1,2,3), of i 0 ?b p q] ih "1.prems"(4) by simp
    have IH: "pixel_on (SSD1306_Buffer (putc_row_loop (i + 1) ch font color ?s')) p q =
           (if uint (currentY s) + uint (i + 1) \<le> q \<and> q < uint (currentY s) + uint (fontHeight font)
                \<and> uint (currentX s) \<le> p \<and> p < uint (currentX s) + uint (fontWidth font)
            then (nat (p - uint (currentX s)) \<le> 15
                  \<and> bit (data font ((uint ch - 32) * uint (fontHeight font) + (q - uint (currentY s))))
                        (15 - nat (p - uint (currentX s))))
                   = lit color s
            else pixel_on (SSD1306_Buffer ?s') p q)"
      using "1.IH"[OF True refl] "1.prems" fr by (simp add: lit_frame[OF fr(3)])
    have i1: "uint (i + 1) = uint i + 1" using True by (rule uint8_inc)
    show ?thesis
    proof (cases "q = uint (currentY s) + uint i")
      case True
      then have "q - uint (currentY s) = uint i" by simp
      then show ?thesis unfolding step IH row i1 using True ih by simp
    next
      case False
      then show ?thesis unfolding step IH row i1 by auto
    qed
  qed
qed

lemma putc_reject:
  "int SSD1306_WIDTH \<le> uint (currentX s) + uint (fontWidth font)
     \<or> int SSD1306_HEIGHT \<le> uint (currentY s) + uint (fontHeight font) \<Longrightarrow>
   SSD1306_putc ch font color s = (INVALID_PARAMS, s)"
  by (simp add: SSD1306_putc_def)

lemma putc_accept:
  "\<not> (int SSD1306_WIDTH \<le> uint (currentX s) + uint (fontWidth font)
     \<or> int SSD1306_HEIGHT \<le> uint (currentY s) + uint (fontHeight font)) \<Longrightarrow>
   SSD1306_putc ch font color s =
     (LCD_OK, (putc_row_loop 0 ch font color s)
        \<lparr>currentX := currentX (putc_row_loop 0 ch font color s) + ucast (fontWidth font)\<rparr>)"
  by (simp add: SSD1306_putc_def Let_def)

text \<open>
  What \<^verbatim>\<open>SSD1306_putc\<close> does, for a framebuffer of 1024 bytes and a colour of the
  enumeration. It returns \<open>INVALID_PARAMS\<close> and leaves the state (cursor included)
  unchanged when \<open>currentX + fontWidth \<ge> SSD1306_WIDTH\<close> or
  \<open>currentY + fontHeight \<ge> SSD1306_HEIGHT\<close>. Otherwise it returns \<open>LCD_OK\<close>, advances
  \<open>currentX\<close> by \<open>fontWidth\<close> without wrapping, leaves \<open>currentY\<close> and all else but the
  framebuffer alone, and writes every pixel of the glyph box: column \<open>j\<close> of row \<open>i\<close> of
  the box gets the colour when bit \<open>15 - j\<close> of the table word of that row is set, and the
  negated colour otherwise (both through the inversion flag, as \<^verbatim>\<open>SSD1306_drawPixel\<close>
  applies it); pixels outside the box keep their value.
\<close>

lemma putc_effect:
  assumes len: "length (SSD1306_Buffer s) = 1024"
    and col: "color = SSD1306_COLOR_BLACK \<or> color = SSD1306_COLOR_WHITE"
  shows "(int SSD1306_WIDTH \<le> uint (currentX s) + uint (fontWidth font)
            \<or> int SSD1306_HEIGHT \<le> uint (currentY s) + uint (fontHeight font) \<longrightarrow>
          SSD1306_putc ch font color s = (INVALID_PARAMS, s))
       \<and> (uint (currentX s) + uint (fontWidth font) < int SSD1306_WIDTH
            \<and> uint (currentY s) + uint (fontHeight font) < int SSD1306_HEIGHT \<longrightarrow>
          (\<exists>buf. SSD1306_putc ch font color s =
                    (LCD_OK, s\<lparr>SSD1306_Buffer := buf, currentX := currentX s + ucast (fontWidth font)\<rparr>)
             \<and> uint (currentX s + ucast (fontWidth font)) = uint (currentX s) + uint (fontWidth font)
             \<and> (\<forall>p q. pixel_on buf p q =
                  (if uint (currentX s) \<le> p \<and> p < uint (currentX s) + uint (fontWidth font)
                      \<and> uint (currentY s) \<le> q \<and> q < uint (currentY s) + uint (fontHeight font)
                   then if nat (p - uint (currentX s)) \<le> 15
                           \<and> bit (data font ((uint ch - 32) * uint (fontHeight font) + (q - uint (currentY s))))
                                 (15 - nat (p - uint (currentX s)))
                        then lit color s else lit (lnot color) s
                   else pixel_on (SSD1306_Buffer s) p q))))"
proof (intro conjI impI)
  assume "int SSD1306_WIDTH \<le> uint (currentX s) + uint (fontWidth font)
            \<or> int SSD1306_HEIGHT \<le> uint (currentY s) + uint (fontHeight font)"
  then show "SSD1306_putc ch font color s = (INVALID_PARAMS, s)" by (rule putc_reject)
next
  assume fit: "uint (currentX s) + uint (fontWidth font) < int SSD1306_WIDTH
            \<and> uint (currentY s) + uint (fontHeight font) < int SSD1306_HEIGHT"
  then have X: "uint (currentX s) + uint (fontWidth font) \<le> 128"
    and Y: "uint (currentY s) + uint (fontHeight font) \<le> 64"
    by (simp_all add: SSD1306_WIDTH_def SSD1306_HEIGHT_def)
  let ?t = "putc_row_loop 0 ch font color s"
  have fr: "currentX ?t = currentX s" "currentY ?t = currentY s" "inverted ?t = inverted s"
      "initialized ?t = initialized s" "i2c_ptr ?t = i2c_ptr s" "i2c_bus ?t = i2c_bus s"
    using putc_row_loop_frame[of 0 ch font color s] by simp_all
  have t: "?t = s\<lparr>SSD1306_Buffer := SSD1306_Buffer ?t\<rparr>"
    using fr by (intro SSD1306_state.equality) simp_all
  have "SSD1306_putc ch font color s = (LCD_OK, ?t\<lparr>currentX := currentX ?t + ucast (fontWidth font)\<rparr>)"
    using fit by (intro putc_accept) simp
  also have "?t\<lparr>currentX := currentX ?t + ucast (fontWidth font)\<rparr>
      = s\<lparr>SSD1306_Buffer := SSD1306_Buffer ?t, currentX := currentX s + ucast (fontWidth font)\<rparr>"
    using fr by (intro SSD1306_state.equality) simp_all
  finally have res: "SSD1306_putc ch font color s =
      (LCD_OK, s\<lparr>SSD1306_Buffer := SSD1306_Buffer ?t, currentX := currentX s + ucast (fontWidth font)\<rparr>)" .
  have cur: "uint (currentX s + ucast (fontWidth font)) = uint (currentX s) + uint (fontWidth font)"
    using X by (simp add: uint_add16 uint_ucast_8_16)
  have pix: "pixel_on (SSD1306_Buffer ?t) p q =
                  (if uint (currentX s) \<le> p \<and> p < uint (currentX s) + uint (fontWidth font)
                      \<and> uint (currentY s) \<le> q \<and> q < uint (currentY s) + uint (fontHeight font)
                   then if nat (p - uint (currentX s)) \<le> 15
                           \<and> bit (data font ((uint ch - 32) * uint (fontHeight font) + (q - uint (currentY s))))
                                 (15 - nat (p - uint (currentX s)))
                        then lit color s else lit (lnot color) s
                   else pixel_on (SSD1306_Buffer s) p q)" for p q
    unfolding putc_row_loop_pixel[OF len col X Y] lit_lnot[OF col] by auto
  show "\<exists>buf. SSD1306_putc ch font color s =
                    (LCD_OK, s\<lparr>SSD1306_Buffer := buf, currentX := currentX s + ucast (fontWidth font)\<rparr>)
             \<and> uint (currentX s + ucast (fontWidth font)) = uint (currentX s) + uint (fontWidth font)
             \<and> (\<forall>p q. pixel_on buf p q =
                  (if uint (currentX s) \<le> p \<and> p < uint (currentX s) + uint (fontWidth font)
                      \<and> uint (currentY s) \<le> q \<and> q < uint (currentY s) + uint (fontHeight font)
                   then if nat (p - uint (currentX s)) \<le> 15
                           \<and> bit (data font ((uint ch - 32) * uint (fontHeight font) + (q - uint (currentY s))))
                                 (15 - nat (p - uint (currentX s)))
                        then lit color s else lit (lnot color) s
                   else pixel_on (SSD1306_Buffer s) p q))"
    using res cur pix by blast
qed

text \<open>
  An instance with a 7x10 font: at \<open>currentX = 125\<close> the glyph is rejected; at the origin
  it is drawn, the cursor moves to column 7, pixel (6, 9) of the box is on and pixel (7, 9)
  next to the box stays off.
\<close>

lemma putc_effect_example:
  "SSD1306_putc 0x41 (solid_font 7 10) SSD1306_COLOR_WHITE (power_on\<lparr>currentX := 125\<rparr>)
     = (INVALID_PARAMS, power_on\<lparr>currentX := 125\<rparr>)
   \<and> fst (SSD1306_putc 0x41 (solid_font 7 10) SSD1306_COLOR_WHITE power_on) = LCD_OK
   \<and> currentX (snd (SSD1306_putc 0x41 (solid_font 7 10) SSD1306_COLOR_WHITE power_on)) = 7
   \<and> currentY (snd (SSD1306_putc 0x41 (solid_font 7 10) SSD1306_COLOR_WHITE power_on)) = 0
   \<and> pixel_on (SSD1306_Buffer (snd (SSD1306_putc 0x41 (solid_font 7 10) SSD1306_COLOR_WHITE power_on))) 6 9
   \<and> \<not> pixel_on (SSD1306_Buffer (snd (SSD1306_putc 0x41 (solid_font 7 10) SSD1306_COLOR_WHITE power_on))) 7 9"
proof -
  have col: "SSD1306_COLOR_WHITE = SSD1306_COLOR_BLACK \<or> SSD1306_COLOR_WHITE = SSD1306_COLOR_WHITE"
    by simp
  have len: "length (SSD1306_Buffer power_on) = 1024"
    and len': "length (SSD1306_Buffer (power_on\<lparr>currentX := 125\<rparr>)) = 1024"
    by (simp_all add: power_on_def)
  have out: "int SSD1306_WIDTH \<le> uint (currentX (power_on\<lparr>currentX := 125\<rparr>)) + uint (fontWidth (solid_font 7 10))
      \<or> int SSD1306_HEIGHT \<le> uint (currentY (power_on\<lparr>currentX := 125\<rparr>)) + uint (fontHeight (solid_font 7 10))"
    by (simp add: solid_font_def SSD1306_WIDTH_def)
  have fit: "uint (currentX power_on) + uint (fontWidth (solid_font 7 10)) < int SSD1306_WIDTH
      \<and> uint (currentY power_on) + uint (fontHeight (solid_font 7 10)) < int SSD1306_HEIGHT"
    by (simp add: solid_font_def power_on_def SSD1306_WIDTH_def SSD1306_HEIGHT_def)
  from putc_effect [OF len' col, of "solid_font 7 10" "0x41"] out
  have a: "SSD1306_putc 0x41 (solid_font 7 10) SSD1306_COLOR_WHITE (power_on\<lparr>currentX := 125\<rparr>)
     = (INVALID_PARAMS, power_on\<lparr>currentX := 125\<rparr>)"
    by blast
  from putc_effect [OF len col, of "solid_font 7 10" "0x41"] fit
  obtain buf where
    b: "SSD1306_putc 0x41 (solid_font 7 10) SSD1306_COLOR_WHITE power_on =
          (LCD_OK, power_on\<lparr>SSD1306_Buffer := buf,
             currentX := currentX power_on + ucast (fontWidth (solid_font 7 10))\<rparr>)"
    and pix: "\<And>p q. pixel_on buf p q =
        (if uint (currentX power_on) \<le> p \<and> p < uint (currentX power_on) + uint (fontWidth (solid_font 7 10))
            \<and> uint (currentY power_on) \<le> q \<and> q < uint (currentY power_on) + uint (fontHeight (solid_font 7 10))
         then if nat (p - uint (currentX power_on)) \<le> 15
                 \<and> bit (data (solid_font 7 10) ((uint (0x41::8 word) - 32) * uint (fontHeight (solid_font 7 10))
                                                   + (q - uint (currentY power_on))))
                       (15 - nat (p - uint (currentX power_on)))
              then lit SSD1306_COLOR_WHITE power_on else lit (lnot SSD1306_COLOR_WHITE) power_on
         else pixel_on (SSD1306_Buffer power_on) p q)"
    by blast
  have off: "\<not> pixel_on (SSD1306_Buffer power_on) 7 9"
    by (simp add: pixel_on_def power_on_def SSD1306_WIDTH_def SSD1306_HEIGHT_def)
  have "pixel_on buf 6 9"
    unfolding pix by (simp add: solid_font_def power_on_def lit_def)
  moreover have "\<not> pixel_on buf 7 9"
    unfolding pix using off by (simp add: solid_font_def power_on_def)
  ultimately show ?thesis using a b by (simp add: solid_font_def power_on_def)
qed

text \<open>
  Claim C5 on the code. The claim has \<^verbatim>\<open>SSD1306_putc\<close> reject exactly the glyphs whose box
  would exceed the panel. The guard of the function, commented ``check available space on
  the visible LCD area'', is \<^verbatim>\<open>SSD1306_WIDTH <= currentX + fontWidth\<close> (and the same for the
  height), one too strict: a glyph whose box ends exactly on the last column or on the last
  row is rejected although it fits. With a 16x26 font at cursor (112, 0) the box is columns
  112 to 127 and rows 0 to 25; with a 7x10 font at cursor (0, 54) it is columns 0 to 6 and
  rows 54 to 63. Both lie on the panel and both are rejected with \<open>INVALID_PARAMS\<close>,
  nothing drawn.
\<close>

theorem C5_putc_rejects_fitting_glyph:
  "uint (currentX (power_on\<lparr>currentX := 112\<rparr>)) + uint (fontWidth (solid_font 16 26)) - 1
      \<le> int SSD1306_WIDTH - 1
   \<and> uint (currentY (power_on\<lparr>currentX := 112\<rparr>)) + uint (fontHeight (solid_font 16 26)) - 1
      \<le> int SSD1306_HEIGHT - 1
   \<and> SSD1306_putc 0x41 (solid_font 16 26) SSD1306_COLOR_WHITE (power_on\<lparr>currentX := 112\<rparr>)
      = (INVALID_PARAMS, power_on\<lparr>currentX := 112\<rparr>)
   \<and> uint (currentX (power_on\<lparr>currentY := 54\<rparr>)) + uint (fontWidth (solid_font 7 10)) - 1
      \<le> int SSD1306_WIDTH - 1
   \<and> uint (currentY (power_on\<lparr>currentY := 54\<rparr>)) + uint (fontHeight (solid_font 7 10)) - 1
      \<le> int SSD1306_HEIGHT - 1
   \<and> SSD1306_putc 0x41 (solid_font 7 10) SSD1306_COLOR_WHITE (power_on\<lparr>currentY := 54\<rparr>)
      = (INVALID_PARAMS, power_on\<lparr>currentY := 54\<rparr>)"
  by (simp add: SSD1306_putc_def solid_font_def power_on_def SSD1306_WIDTH_def SSD1306_HEIGHT_def)

section \<open>Text: strings\<close>

lemma putc_status:
  "fst (SSD1306_putc ch font color s) \<noteq> LCD_OK \<longleftrightarrow>
     (int SSD1306_WIDTH \<le> uint (currentX s) + uint (fontWidth font)
      \<or> int SSD1306_HEIGHT \<le> uint (currentY s) + uint (fontHeight font))"
  by (simp add: SSD1306_putc_def Let_def)

lemma puts_status: "fst (SSD1306_puts str font color s) = LCD_OK"
  by (induction str arbitrary: s) simp_all

lemma puts_fold:
  "0 \<notin> set str \<Longrightarrow>
   snd (SSD1306_puts str font color s) = fold (\<lambda>c t. snd (SSD1306_putc c font color t)) str s"
  by (induction str arbitrary: s) auto

lemma puts_stuck:
  assumes "fst (SSD1306_putc c font color s) \<noteq> LCD_OK"
  shows "snd (SSD1306_puts str font color s) = s"
proof (induction str)
  case Nil
  show ?case by simp
next
  case (Cons a str)
  have "SSD1306_putc a font color s = (INVALID_PARAMS, s)"
    using assms unfolding putc_status by (rule putc_reject)
  then show ?case using Cons by simp
qed

lemma puts_append:
  "0 \<notin> set pre \<Longrightarrow>
   SSD1306_puts (pre @ str) font color s =
     SSD1306_puts str font color (fold (\<lambda>c t. snd (SSD1306_putc c font color t)) pre s)"
  by (induction pre arbitrary: s) auto

text \<open>
  Claim C3, as amended. \<^verbatim>\<open>SSD1306_puts\<close> always returns \<open>LCD_OK\<close>: it drops the status of
  every \<^verbatim>\<open>SSD1306_putc\<close>. It applies \<^verbatim>\<open>SSD1306_putc\<close> to each character in sequence up to
  the terminator and does not stop at a failure. Still, when the characters \<open>pre\<close> have been
  written and the next one is rejected, the call ends in the state reached after \<open>pre\<close>,
  whatever follows in the string: a rejected \<^verbatim>\<open>SSD1306_putc\<close> changes nothing and the
  rejection depends on cursor and font only, so every later character is rejected too.
\<close>

theorem C3_puts:
  "fst (SSD1306_puts str font color s) = LCD_OK
   \<and> (0 \<notin> set str \<longrightarrow>
        snd (SSD1306_puts str font color s) = fold (\<lambda>c t. snd (SSD1306_putc c font color t)) str s)
   \<and> (0 \<notin> set pre \<and>
        fst (SSD1306_putc c font color (fold (\<lambda>c t. snd (SSD1306_putc c font color t)) pre s)) \<noteq> LCD_OK \<longrightarrow>
        SSD1306_puts (pre @ c # rest) font color s =
          (LCD_OK, fold (\<lambda>c t. snd (SSD1306_putc c font color t)) pre s))"
proof (intro conjI impI)
  show "fst (SSD1306_puts str font color s) = LCD_OK" by (rule puts_status)
next
  assume "0 \<notin> set str"
  then show "snd (SSD1306_puts str font color s) = fold (\<lambda>c t. snd (SSD1306_putc c font color t)) str s"
    by (rule puts_fold)
next
  let ?t = "fold (\<lambda>c t. snd (SSD1306_putc c font color t)) pre s"
  assume a: "0 \<notin> set pre \<and> fst (SSD1306_putc c font color ?t) \<noteq> LCD_OK"
  then have "SSD1306_puts (pre @ c # rest) font color s = SSD1306_puts (c # rest) font color ?t"
    by (simp add: puts_append)
  moreover have "snd (SSD1306_puts (c # rest) font color ?t) = ?t"
    using a by (intro puts_stuck[of c]) simp
  moreover have "fst (SSD1306_puts (c # rest) font color ?t) = LCD_OK" by (rule puts_status)
  ultimately show "SSD1306_puts (pre @ c # rest) font color s = (LCD_OK, ?t)"
    by (simp add: prod_eq_iff)
qed

text \<open>
  Witness for C3 as amended, with a font 64 columns wide on the power-on state: the first
  character is drawn and moves the cursor to column 64, the second is rejected, and the call
  returns \<open>LCD_OK\<close> with the state reached after the first character.
\<close>

theorem C3_puts_witness:
  "SSD1306_puts ([0x48] @ 0x69 # [0x21]) (solid_font 64 10) SSD1306_COLOR_WHITE power_on
     = (LCD_OK, snd (SSD1306_putc 0x48 (solid_font 64 10) SSD1306_COLOR_WHITE power_on))
   \<and> currentX (snd (SSD1306_putc 0x48 (solid_font 64 10) SSD1306_COLOR_WHITE power_on)) = 64
   \<and> fst (SSD1306_putc 0x69 (solid_font 64 10) SSD1306_COLOR_WHITE
        (snd (SSD1306_putc 0x48 (solid_font 64 10) SSD1306_COLOR_WHITE power_on))) = INVALID_PARAMS"
proof -
  let ?t = "snd (SSD1306_putc 0x48 (solid_font 64 10) SSD1306_COLOR_WHITE power_on)"
  have t: "?t = (putc_row_loop 0 0x48 (solid_font 64 10) SSD1306_COLOR_WHITE power_on)\<lparr>currentX := 64\<rparr>"
    using putc_row_loop_frame[of 0 "0x48" "solid_font 64 10" SSD1306_COLOR_WHITE power_on]
    by (simp add: SSD1306_putc_def Let_def solid_font_def power_on_def SSD1306_WIDTH_def SSD1306_HEIGHT_def)
  have cur: "currentX ?t = 64" "currentY ?t = 0"
    unfolding t using putc_row_loop_frame[of 0 "0x48" "solid_font 64 10" SSD1306_COLOR_WHITE power_on]
    by (simp_all add: power_on_def)
  have second: "SSD1306_putc 0x69 (solid_font 64 10) SSD1306_COLOR_WHITE ?t = (INVALID_PARAMS, ?t)"
    using cur by (intro putc_reject) (simp add: solid_font_def SSD1306_WIDTH_def)
  have hyp: "0 \<notin> set [0x48 :: 8 word] \<and>
      fst (SSD1306_putc 0x69 (solid_font 64 10) SSD1306_COLOR_WHITE
             (fold (\<lambda>c t. snd (SSD1306_putc c (solid_font 64 10) SSD1306_COLOR_WHITE t)) [0x48] power_on))
        \<noteq> LCD_OK"
    using second by simp
  from C3_puts [of "[]" "solid_font 64 10" SSD1306_COLOR_WHITE power_on "[0x48]" "0x69" "[0x21]"] hyp
  have "SSD1306_puts ([0x48] @ 0x69 # [0x21]) (solid_font 64 10) SSD1306_COLOR_WHITE power_on
     = (LCD_OK, fold (\<lambda>c t. snd (SSD1306_putc c (solid_font 64 10) SSD1306_COLOR_WHITE t)) [0x48] power_on)"
    by blast
  then show ?thesis using cur second by simp
qed

text \<open>
  Counterexample to C3 as stated: at \<open>currentX = 125\<close> the first character of a 7x10 font
  is rejected with \<open>INVALID_PARAMS\<close>, yet \<^verbatim>\<open>SSD1306_puts\<close> returns \<open>LCD_OK\<close>.
\<close>

theorem C3_status_dropped_counterexample:
  "SSD1306_putc 0x48 (solid_font 7 10) SSD1306_COLOR_WHITE (power_on\<lparr>currentX := 125\<rparr>)
     = (INVALID_PARAMS, power_on\<lparr>currentX := 125\<rparr>)
   \<and> SSD1306_puts [0x48, 0x69] (solid_font 7 10) SSD1306_COLOR_WHITE (power_on\<lparr>currentX := 125\<rparr>)
     = (LCD_OK, power_on\<lparr>currentX := 125\<rparr>)"
  by (simp add: SSD1306_putc_def solid_font_def power_on_def SSD1306_WIDTH_def)

section \<open>Lines along an axis\<close>

lemma draws_refl: "(\<And>p q. \<not> A p q) \<Longrightarrow> draws s s A v"
  by (simp add: draws_def)

lemma draws_trans:
  assumes "draws s t A v" "draws t u B v" "\<And>p q. C p q \<longleftrightarrow> A p q \<or> B p q"
  shows "draws s u C v"
  using assms unfolding draws_def by auto

lemma draws_cong: "draws s t A v \<Longrightarrow> (\<And>p q. A p q \<longleftrightarrow> B p q) \<Longrightarrow> draws s t B v"
  by (simp add: draws_def)

lemma draws_fields:
  assumes "draws s t A v"
  shows "inverted t = inverted s" "length (SSD1306_Buffer t) = length (SSD1306_Buffer s)"
    "lit c t = lit c s"
  using assms by (simp_all add: draws_def lit_def)

lemma draws_state:
  assumes "draws s t A v"
  shows "t = s\<lparr>SSD1306_Buffer := SSD1306_Buffer t\<rparr>"
  using assms by (intro SSD1306_state.equality) (simp_all add: draws_def)

lemma drawPixel_draws:
  assumes "length (SSD1306_Buffer s) = 1024"
    and "c = SSD1306_COLOR_BLACK \<or> c = SSD1306_COLOR_WHITE"
  shows "draws s (snd (SSD1306_drawPixel x y c s))
           (\<lambda>p q. p = uint x \<and> q = uint y \<and> unat x < 128 \<and> unat y < 64) (lit c s)"
  unfolding draws_def
  using drawPixel_pixel[OF assms, of x y] by simp

lemma sint_small: "uint (i::16 word) < 32768 \<Longrightarrow> sint i = uint i"
proof -
  assume "uint i < 32768"
  moreover have "- 32768 \<le> uint i" using uint_ge_0[of i] by linarith
  ultimately have "signed_take_bit 15 (uint i) = uint i"
    by (intro signed_take_bit_int_eq_self) simp_all
  then show ?thesis by (simp add: sint_uint)
qed

lemma uint16_inc: "uint (i::16 word) < 32768 \<Longrightarrow> uint (i + 1) = uint i + 1"
  using uint_add_lem[of i 1] by simp

lemma drawLine_horizontal_draws:
  assumes "length (SSD1306_Buffer s) = 1024"
    and "color = SSD1306_COLOR_BLACK \<or> color = SSD1306_COLOR_WHITE"
    and "uint x1 < 128" and "unat y0 < 64" and "uint i \<le> uint x1 + 1"
  shows "\<exists>t. drawLine_horizontal i y0 x1 color s = Some t
             \<and> draws s t (\<lambda>p q. q = uint y0 \<and> uint i \<le> p \<and> p \<le> uint x1) (lit color s)"
  using assms
proof (induction "nat (uint x1 + 1 - uint i)" arbitrary: i s)
  case 0
  then have gt: "uint x1 < uint i" by simp
  then have "uint i < 32768" using "0.prems" by simp
  then have "\<not> sint i \<le> uint x1" using gt by (simp add: sint_small)
  then have "drawLine_horizontal i y0 x1 color s = Some s"
    by (subst drawLine_horizontal.simps) simp
  moreover have "draws s s (\<lambda>p q. q = uint y0 \<and> uint i \<le> p \<and> p \<le> uint x1) (lit color s)"
    using gt by (intro draws_refl) simp
  ultimately show ?case by blast
next
  case (Suc n)
  then have le: "uint i \<le> uint x1" by simp
  then have small: "uint i < 32768" using Suc.prems by simp
  let ?s' = "snd (SSD1306_drawPixel i y0 color s)"
  have step: "drawLine_horizontal i y0 x1 color s = drawLine_horizontal (i + 1) y0 x1 color ?s'"
    using le small by (subst drawLine_horizontal.simps) (simp add: sint_small)
  have i1: "uint (i + 1) = uint i + 1" using small by (rule uint16_inc)
  have ini: "unat i < 128" using le Suc.prems(3) uint_less_iff_unat[of i 128] by simp
  have d1: "draws s ?s' (\<lambda>p q. p = uint i \<and> q = uint y0) (lit color s)"
    using ini Suc.prems(4) by (intro draws_cong[OF drawPixel_draws[OF Suc.prems(1,2), of i y0]]) simp
  have "\<exists>t. drawLine_horizontal (i + 1) y0 x1 color ?s' = Some t
             \<and> draws ?s' t (\<lambda>p q. q = uint y0 \<and> uint (i + 1) \<le> p \<and> p \<le> uint x1) (lit color ?s')"
    using Suc.hyps(2) Suc.prems le i1 by (intro Suc.hyps(1)) simp_all
  then obtain t where t: "drawLine_horizontal (i + 1) y0 x1 color ?s' = Some t"
    and d2: "draws ?s' t (\<lambda>p q. q = uint y0 \<and> uint i + 1 \<le> p \<and> p \<le> uint x1) (lit color s)"
    unfolding i1 by auto
  have "draws s t (\<lambda>p q. q = uint y0 \<and> uint i \<le> p \<and> p \<le> uint x1) (lit color s)"
    using d1 d2 by (rule draws_trans) (use le in auto)
  then show ?case using step t by simp
qed

lemma drawLine_vertical_draws:
  assumes "length (SSD1306_Buffer s) = 1024"
    and "color = SSD1306_COLOR_BLACK \<or> color = SSD1306_COLOR_WHITE"
    and "uint y1 < 64" and "unat x0 < 128" and "uint i \<le> uint y1 + 1"
  shows "\<exists>t. drawLine_vertical i x0 y1 color s = Some t
             \<and> draws s t (\<lambda>p q. p = uint x0 \<and> uint i \<le> q \<and> q \<le> uint y1) (lit color s)"
  using assms
proof (induction "nat (uint y1 + 1 - uint i)" arbitrary: i s)
  case 0
  then have gt: "uint y1 < uint i" by simp
  then have "uint i < 32768" using "0.prems" by simp
  then have "\<not> sint i \<le> uint y1" using gt by (simp add: sint_small)
  then have "drawLine_vertical i x0 y1 color s = Some s"
    by (subst drawLine_vertical.simps) simp
  moreover have "draws s s (\<lambda>p q. p = uint x0 \<and> uint i \<le> q \<and> q \<le> uint y1) (lit color s)"
    using gt by (intro draws_refl) simp
  ultimately show ?case by blast
next
  case (Suc n)
  then have le: "uint i \<le> uint y1" by simp
  then have small: "uint i < 32768" using Suc.prems by simp
  let ?s' = "snd (SSD1306_drawPixel x0 i color s)"
  have step: "drawLine_vertical i x0 y1 color s = drawLine_vertical (i + 1) x0 y1 color ?s'"
    using le small by (subst drawLine_vertical.simps) (simp add: sint_small)
  have i1: "uint (i + 1) = uint i + 1" using small by (rule uint16_inc)
  have ini: "unat i < 64" using le Suc.prems(3) uint_less_iff_unat[of i 64] by simp
  have d1: "draws s ?s' (\<lambda>p q. p = uint x0 \<and> q = uint i) (lit color s)"
    using ini Suc.prems(4) by (intro draws_cong[OF drawPixel_draws[OF Suc.prems(1,2), of x0 i]]) simp
  have "\<exists>t. drawLine_vertical (i + 1) x0 y1 color ?s' = Some t
             \<and> draws ?s' t (\<lambda>p q. p = uint x0 \<and> uint (i + 1) \<le> q \<and> q \<le> uint y1) (lit color ?s')"
    using Suc.hyps(2) Suc.prems le i1 by (intro Suc.hyps(1)) simp_all
  then obtain t where t: "drawLine_vertical (i + 1) x0 y1 color ?s' = Some t"
    and d2: "draws ?s' t (\<lambda>p q. p = uint x0 \<and> uint i + 1 \<le> q \<and> q \<le> uint y1) (lit color s)"
    unfolding i1 by auto
  have "draws s t (\<lambda>p q. p = uint x0 \<and> uint i \<le> q \<and> q \<le> uint y1) (lit color s)"
    using d1 d2 by (rule draws_trans) (use le in auto)
  then show ?case using step t by simp
qed

lemma abs_diff_zero: "(if (a::16 word) < b then b - a else a - b) = 0 \<longleftrightarrow> a = b"
  by auto

lemma drawLine_axis:
  fixes x0 y0 x1 y1 :: "16 word"
  defines "X0 \<equiv> (if SSD1306_WIDTH \<le> unat x0 then word_of_nat (SSD1306_WIDTH - 1) else x0)"
    and "X1 \<equiv> (if SSD1306_WIDTH \<le> unat x1 then word_of_nat (SSD1306_WIDTH - 1) else x1)"
    and "Y0 \<equiv> (if SSD1306_HEIGHT \<le> unat y0 then word_of_nat (SSD1306_HEIGHT - 1) else y0)"
    and "Y1 \<equiv> (if SSD1306_HEIGHT \<le> unat y1 then word_of_nat (SSD1306_HEIGHT - 1) else y1)"
  assumes len: "length (SSD1306_Buffer s) = 1024"
    and col: "color = SSD1306_COLOR_BLACK \<or> color = SSD1306_COLOR_WHITE"
    and axis: "X0 = X1 \<or> Y0 = Y1"
  shows "\<exists>t. SSD1306_drawLine x0 y0 x1 y1 color s = Some (LCD_OK, t)
             \<and> draws s t (\<lambda>p q. min (uint X0) (uint X1) \<le> p \<and> p \<le> max (uint X0) (uint X1)
                               \<and> min (uint Y0) (uint Y1) \<le> q \<and> q \<le> max (uint Y0) (uint Y1))
                  (lit color s)"
proof -
  have ux: "unat X0 < 128" "unat X1 < 128" and uy: "unat Y0 < 64" "unat Y1 < 64"
    by (simp_all add: X0_def X1_def Y0_def Y1_def SSD1306_WIDTH_def SSD1306_HEIGHT_def)
  then have bx: "uint X0 < 128" "uint X1 < 128" and by': "uint Y0 < 64" "uint Y1 < 64"
    using uint_less_iff_unat[of X0 128] uint_less_iff_unat[of X1 128]
      uint_less_iff_unat[of Y0 64] uint_less_iff_unat[of Y1 64] by simp_all
  show ?thesis
  proof (cases "X0 = X1")
    case True
    let ?ya = "if Y1 < Y0 then Y1 else Y0" and ?yb = "if Y1 < Y0 then Y0 else Y1"
    have call: "SSD1306_drawLine x0 y0 x1 y1 color s =
        map_option (Pair LCD_OK) (drawLine_vertical ?ya X0 ?yb color s)"
      unfolding SSD1306_drawLine_def Let_def X0_def[symmetric] X1_def[symmetric]
        Y0_def[symmetric] Y1_def[symmetric] using True by simp
    have ab: "uint ?ya = min (uint Y0) (uint Y1)" "uint ?yb = max (uint Y0) (uint Y1)"
      by (auto simp: word_less_alt)
    have "\<exists>t. drawLine_vertical ?ya X0 ?yb color s = Some t
             \<and> draws s t (\<lambda>p q. p = uint X0 \<and> uint ?ya \<le> q \<and> q \<le> uint ?yb) (lit color s)"
      using len col by' ux by (intro drawLine_vertical_draws) (auto simp: word_less_alt)
    then obtain t where t: "drawLine_vertical ?ya X0 ?yb color s = Some t"
      and d: "draws s t (\<lambda>p q. p = uint X0 \<and> uint ?ya \<le> q \<and> q \<le> uint ?yb) (lit color s)"
      by blast
    have "draws s t (\<lambda>p q. min (uint X0) (uint X1) \<le> p \<and> p \<le> max (uint X0) (uint X1)
                               \<and> min (uint Y0) (uint Y1) \<le> q \<and> q \<le> max (uint Y0) (uint Y1))
                  (lit color s)"
      using d unfolding ab by (rule draws_cong) (use True in auto)
    then show ?thesis using call t by simp
  next
    case False
    then have yy: "Y0 = Y1" using axis by simp
    let ?xa = "if X1 < X0 then X1 else X0" and ?xb = "if X1 < X0 then X0 else X1"
    have call: "SSD1306_drawLine x0 y0 x1 y1 color s =
        map_option (Pair LCD_OK) (drawLine_horizontal ?xa Y0 ?xb color s)"
      unfolding SSD1306_drawLine_def Let_def X0_def[symmetric] X1_def[symmetric]
        Y0_def[symmetric] Y1_def[symmetric] using False yy by (simp add: abs_diff_zero)
    have ab: "uint ?xa = min (uint X0) (uint X1)" "uint ?xb = max (uint X0) (uint X1)"
      by (auto simp: word_less_alt)
    have "\<exists>t. drawLine_horizontal ?xa Y0 ?xb color s = Some t
             \<and> draws s t (\<lambda>p q. q = uint Y0 \<and> uint ?xa \<le> p \<and> p \<le> uint ?xb) (lit color s)"
      using len col bx uy by (intro drawLine_horizontal_draws) (auto simp: word_less_alt)
    then obtain t where t: "drawLine_horizontal ?xa Y0 ?xb color s = Some t"
      and d: "draws s t (\<lambda>p q. q = uint Y0 \<and> uint ?xa \<le> p \<and> p \<le> uint ?xb) (lit color s)"
      by blast
    have "draws s t (\<lambda>p q. min (uint X0) (uint X1) \<le> p \<and> p \<le> max (uint X0) (uint X1)
                               \<and> min (uint Y0) (uint Y1) \<le> q \<and> q \<le> max (uint Y0) (uint Y1))
                  (lit color s)"
      using d unfolding ab by (rule draws_cong) (use yy in auto)
    then show ?thesis using call t by simp
  qed
qed

lemma all_off: "\<not> pixel_on (replicate 1024 0) p q"
proof (cases "0 \<le> p \<and> p < 128 \<and> 0 \<le> q \<and> q < 64")
  case True
  then have "nat p < 128" "nat q < 64" by linarith+
  then have "nat p + nat q div 8 * 128 < 1024" by (rule pixel_index_bound)
  then show ?thesis by (simp add: pixel_on_def SSD1306_WIDTH_def)
next
  case False
  then show ?thesis by (auto simp: pixel_on_def SSD1306_WIDTH_def SSD1306_HEIGHT_def)
qed

text \<open>
  Claim C8. On a framebuffer that is all zero, with the inversion flag clear,
  \<^verbatim>\<open>SSD1306_drawLine(0, 0, 10, 0, WHITE)\<close> returns \<open>LCD_OK\<close> (the horizontal branch; the
  loop ends), changes nothing but the framebuffer, and afterwards the pixels that are on are
  exactly (0, 0) to (10, 0): eleven pixels of row 0 and no other pixel. The
  \<open>initialized\<close> flag plays no part, the function does not read it.
\<close>

theorem C8_drawLine_horizontal:
  assumes "SSD1306_Buffer s = replicate 1024 0" and "inverted s = 0"
  shows "\<exists>buf. SSD1306_drawLine 0 0 10 0 SSD1306_COLOR_WHITE s = Some (LCD_OK, s\<lparr>SSD1306_Buffer := buf\<rparr>)
           \<and> length buf = 1024
           \<and> (\<forall>p q. pixel_on buf p q \<longleftrightarrow> q = 0 \<and> 0 \<le> p \<and> p \<le> 10)"
proof -
  have len: "length (SSD1306_Buffer s) = 1024" using assms(1) by simp
  have col: "SSD1306_COLOR_WHITE = SSD1306_COLOR_BLACK \<or> SSD1306_COLOR_WHITE = SSD1306_COLOR_WHITE"
    by simp
  have litw: "lit SSD1306_COLOR_WHITE s" using assms(2) by (simp add: lit_def)
  have "\<exists>t. SSD1306_drawLine 0 0 10 0 SSD1306_COLOR_WHITE s = Some (LCD_OK, t)
          \<and> draws s t (\<lambda>p q. min (uint (0::16 word)) (uint (10::16 word)) \<le> p
                            \<and> p \<le> max (uint (0::16 word)) (uint (10::16 word))
                            \<and> min (uint (0::16 word)) (uint (0::16 word)) \<le> q
                            \<and> q \<le> max (uint (0::16 word)) (uint (0::16 word)))
               (lit SSD1306_COLOR_WHITE s)"
    using drawLine_axis[OF len col, of 0 10 0 0]
    by (simp add: SSD1306_WIDTH_def SSD1306_HEIGHT_def)
  then obtain t where t: "SSD1306_drawLine 0 0 10 0 SSD1306_COLOR_WHITE s = Some (LCD_OK, t)"
    and d0: "draws s t (\<lambda>p q. min (uint (0::16 word)) (uint (10::16 word)) \<le> p
                            \<and> p \<le> max (uint (0::16 word)) (uint (10::16 word))
                            \<and> min (uint (0::16 word)) (uint (0::16 word)) \<le> q
                            \<and> q \<le> max (uint (0::16 word)) (uint (0::16 word)))
               (lit SSD1306_COLOR_WHITE s)"
    by blast
  have d: "draws s t (\<lambda>p q. q = 0 \<and> 0 \<le> p \<and> p \<le> 10) True"
    using d0 litw by (simp add: draws_def) 
  have st: "t = s\<lparr>SSD1306_Buffer := SSD1306_Buffer t\<rparr>" using d by (rule draws_state)
  have l: "length (SSD1306_Buffer t) = 1024" using d len by (simp add: draws_def)
  have px: "\<forall>p q. pixel_on (SSD1306_Buffer t) p q \<longleftrightarrow> q = 0 \<and> 0 \<le> p \<and> p \<le> 10"
    using d assms(1) by (simp add: draws_def all_off)
  have "SSD1306_drawLine 0 0 10 0 SSD1306_COLOR_WHITE s
          = Some (LCD_OK, s\<lparr>SSD1306_Buffer := SSD1306_Buffer t\<rparr>)"
    using t st by (simp only:)
  then show ?thesis using l px by blast
qed

text \<open>Witness for C8 on the power-on framebuffer of an initialized device.\<close>

theorem C8_drawLine_horizontal_witness:
  "\<exists>buf. SSD1306_drawLine 0 0 10 0 SSD1306_COLOR_WHITE (power_on\<lparr>initialized := 1\<rparr>)
            = Some (LCD_OK, power_on\<lparr>initialized := 1, SSD1306_Buffer := buf\<rparr>)
         \<and> length buf = 1024
         \<and> pixel_on buf 0 0 \<and> pixel_on buf 10 0 \<and> \<not> pixel_on buf 11 0 \<and> \<not> pixel_on buf 5 1"
proof -
  have b: "SSD1306_Buffer (power_on\<lparr>initialized := 1\<rparr>) = replicate 1024 0"
    and i: "inverted (power_on\<lparr>initialized := 1\<rparr>) = 0"
    by (simp_all add: power_on_def)
  from C8_drawLine_horizontal [OF b i] obtain buf where
    "SSD1306_drawLine 0 0 10 0 SSD1306_COLOR_WHITE (power_on\<lparr>initialized := 1\<rparr>)
       = Some (LCD_OK, power_on\<lparr>initialized := 1, SSD1306_Buffer := buf\<rparr>)"
    "length buf = 1024"
    "\<forall>p q. pixel_on buf p q \<longleftrightarrow> q = 0 \<and> 0 \<le> p \<and> p \<le> 10"
    by blast
  moreover from this(3) have "pixel_on buf 0 0 \<and> pixel_on buf 10 0 \<and> \<not> pixel_on buf 11 0 \<and> \<not> pixel_on buf 5 1"
    by simp
  ultimately show ?thesis by blast
qed

section \<open>Rectangles\<close>

lemma clamp_sum_width:
  fixes x w :: "16 word"
  assumes "unat x < 128"
  defines "w' \<equiv> (if SSD1306_WIDTH \<le> unat x + unat w then word_of_nat SSD1306_WIDTH - x else w)"
  shows "uint (if SSD1306_WIDTH \<le> unat (x + w') then word_of_nat (SSD1306_WIDTH - 1) else x + w')
           = min (uint x + uint w) 127"
proof (cases "128 \<le> unat x + unat w")
  case True
  then have "x + w' = 128" by (simp add: w'_def SSD1306_WIDTH_def)
  moreover have "128 \<le> uint x + uint w"
    using True uint_nat[of x] uint_nat[of w] by linarith
  ultimately show ?thesis by (simp add: SSD1306_WIDTH_def)
next
  case False
  then have w': "w' = w" by (simp add: w'_def SSD1306_WIDTH_def)
  have "unat x + unat w < 2 ^ LENGTH(16)" using False by simp
  then have u: "unat (x + w) = unat x + unat w" by (simp only: unat_add_lem)
  then have e: "uint (x + w) = uint x + uint w"
    using uint_nat[of x] uint_nat[of w] uint_nat[of "x + w"] by linarith
  have "uint x + uint w \<le> 127" using False uint_nat[of x] uint_nat[of w] by linarith
  moreover have "\<not> 128 \<le> unat (x + w)" using False u by simp
  ultimately show ?thesis using e by (simp add: w' SSD1306_WIDTH_def)
qed

lemma clamp_sum_height:
  fixes y h :: "16 word"
  assumes "unat y < 64"
  defines "h' \<equiv> (if SSD1306_HEIGHT \<le> unat y + unat h then word_of_nat SSD1306_HEIGHT - y else h)"
  shows "uint (if SSD1306_HEIGHT \<le> unat (y + h') then word_of_nat (SSD1306_HEIGHT - 1) else y + h')
           = min (uint y + uint h) 63"
proof (cases "64 \<le> unat y + unat h")
  case True
  then have "y + h' = 64" by (simp add: h'_def SSD1306_HEIGHT_def)
  moreover have "64 \<le> uint y + uint h"
    using True uint_nat[of y] uint_nat[of h] by linarith
  ultimately show ?thesis by (simp add: SSD1306_HEIGHT_def)
next
  case False
  then have h': "h' = h" by (simp add: h'_def SSD1306_HEIGHT_def)
  have "unat y + unat h < 2 ^ LENGTH(16)" using False by simp
  then have u: "unat (y + h) = unat y + unat h" by (simp only: unat_add_lem)
  then have e: "uint (y + h) = uint y + uint h"
    using uint_nat[of y] uint_nat[of h] uint_nat[of "y + h"] by linarith
  have "uint y + uint h \<le> 63" using False uint_nat[of y] uint_nat[of h] by linarith
  moreover have "\<not> 64 \<le> unat (y + h)" using False u by simp
  ultimately show ?thesis using e by (simp add: h' SSD1306_HEIGHT_def)
qed

lemma drawLine_axis_ordered:
  fixes x0 y0 x1 y1 X0 Y0 X1 Y1 :: "16 word"
  assumes len: "length (SSD1306_Buffer s) = 1024"
    and col: "color = SSD1306_COLOR_BLACK \<or> color = SSD1306_COLOR_WHITE"
    and X0: "(if SSD1306_WIDTH \<le> unat x0 then word_of_nat (SSD1306_WIDTH - 1) else x0) = X0"
    and X1: "(if SSD1306_WIDTH \<le> unat x1 then word_of_nat (SSD1306_WIDTH - 1) else x1) = X1"
    and Y0: "(if SSD1306_HEIGHT \<le> unat y0 then word_of_nat (SSD1306_HEIGHT - 1) else y0) = Y0"
    and Y1: "(if SSD1306_HEIGHT \<le> unat y1 then word_of_nat (SSD1306_HEIGHT - 1) else y1) = Y1"
    and axis: "X0 = X1 \<or> Y0 = Y1"
    and ord: "uint X0 \<le> uint X1" "uint Y0 \<le> uint Y1"
  shows "\<exists>t. SSD1306_drawLine x0 y0 x1 y1 color s = Some (LCD_OK, t)
             \<and> draws s t (\<lambda>p q. uint X0 \<le> p \<and> p \<le> uint X1 \<and> uint Y0 \<le> q \<and> q \<le> uint Y1)
                  (lit color s)"
proof -
  have m: "min (uint X0) (uint X1) = uint X0" "max (uint X0) (uint X1) = uint X1"
    "min (uint Y0) (uint Y1) = uint Y0" "max (uint Y0) (uint Y1) = uint Y1"
    using ord by simp_all
  show ?thesis
    using drawLine_axis[OF len col, of x0 x1 y0 y1] axis
    unfolding X0 X1 Y0 Y1 m by blast
qed

text \<open>
  Claim C7. For \<open>x < SSD1306_WIDTH\<close> and \<open>y < SSD1306_HEIGHT\<close> (framebuffer of 1024
  bytes, colour of the enumeration) \<^verbatim>\<open>SSD1306_drawRectangle\<close> returns \<open>LCD_OK\<close>, changes
  nothing but the framebuffer, and writes exactly the outline whose right edge is column
  \<open>min (x + w) (SSD1306_WIDTH - 1)\<close> and whose bottom edge is row
  \<open>min (y + h) (SSD1306_HEIGHT - 1)\<close>; every other pixel keeps its value. So when \<open>x + w\<close>
  exceeds the panel width, the pixels drawn with colour ON lie in columns \<open>x\<close> to
  \<open>SSD1306_WIDTH - 1\<close> of rows \<open>y\<close> to the bottom edge: none is set past the last column
  (nothing spills into another row of the buffer), and likewise none past the last row.
\<close>

theorem C7_drawRectangle:
  assumes len: "length (SSD1306_Buffer s) = 1024"
    and col: "color = SSD1306_COLOR_BLACK \<or> color = SSD1306_COLOR_WHITE"
    and x: "unat x < SSD1306_WIDTH" and y: "unat y < SSD1306_HEIGHT"
  shows "\<exists>buf. SSD1306_drawRectangle x y w h color s = Some (LCD_OK, s\<lparr>SSD1306_Buffer := buf\<rparr>)
           \<and> length buf = 1024
           \<and> (\<forall>p q. pixel_on buf p q =
                 (if (uint x \<le> p \<and> p \<le> min (uint x + uint w) (int SSD1306_WIDTH - 1)
                        \<and> (q = uint y \<or> q = min (uint y + uint h) (int SSD1306_HEIGHT - 1)))
                     \<or> ((p = uint x \<or> p = min (uint x + uint w) (int SSD1306_WIDTH - 1))
                        \<and> uint y \<le> q \<and> q \<le> min (uint y + uint h) (int SSD1306_HEIGHT - 1))
                  then lit color s else pixel_on (SSD1306_Buffer s) p q))"
proof -
  have x': "unat x < 128" and y': "unat y < 64"
    using x y by (simp_all add: SSD1306_WIDTH_def SSD1306_HEIGHT_def)
  define w' where "w' = (if SSD1306_WIDTH \<le> unat x + unat w then word_of_nat SSD1306_WIDTH - x else w)"
  define h' where "h' = (if SSD1306_HEIGHT \<le> unat y + unat h then word_of_nat SSD1306_HEIGHT - y else h)"
  define CX where "CX = (if SSD1306_WIDTH \<le> unat (x + w') then word_of_nat (SSD1306_WIDTH - 1) else x + w')"
  define CY where "CY = (if SSD1306_HEIGHT \<le> unat (y + h') then word_of_nat (SSD1306_HEIGHT - 1) else y + h')"
  have cx: "(if SSD1306_WIDTH \<le> unat x then word_of_nat (SSD1306_WIDTH - 1) else x) = x"
    and cy: "(if SSD1306_HEIGHT \<le> unat y then word_of_nat (SSD1306_HEIGHT - 1) else y) = y"
    using x y by simp_all
  have cX: "(if SSD1306_WIDTH \<le> unat (x + w') then word_of_nat (SSD1306_WIDTH - 1) else x + w') = CX"
    and cY: "(if SSD1306_HEIGHT \<le> unat (y + h') then word_of_nat (SSD1306_HEIGHT - 1) else y + h') = CY"
    by (simp_all add: CX_def CY_def)
  have uCX: "uint CX = min (uint x + uint w) 127"
    unfolding CX_def w'_def using x' by (rule clamp_sum_width)
  have uCY: "uint CY = min (uint y + uint h) 63"
    unfolding CY_def h'_def using y' by (rule clamp_sum_height)
  have ux: "uint x \<le> 127" using x' uint_less_iff_unat[of x 128] by simp
  have uy: "uint y \<le> 63" using y' uint_less_iff_unat[of y 64] by simp
  have xle: "uint x \<le> uint CX" unfolding uCX using ux by simp
  have yle: "uint y \<le> uint CY" unfolding uCY using uy by simp
  let ?v = "lit color s"
  obtain s1 where l1: "SSD1306_drawLine x y (x + w') y color s = Some (LCD_OK, s1)"
    and d1: "draws s s1 (\<lambda>p q. uint x \<le> p \<and> p \<le> uint CX \<and> uint y \<le> q \<and> q \<le> uint y) ?v"
    using drawLine_axis_ordered[OF len col cx cX cy cy _ xle order_refl] by blast
  have len1: "length (SSD1306_Buffer s1) = 1024" and v1: "lit color s1 = ?v"
    using draws_fields[OF d1] len by simp_all
  obtain s2 where l2: "SSD1306_drawLine x (y + h') (x + w') (y + h') color s1 = Some (LCD_OK, s2)"
    and d2: "draws s1 s2 (\<lambda>p q. uint x \<le> p \<and> p \<le> uint CX \<and> uint CY \<le> q \<and> q \<le> uint CY) ?v"
    using drawLine_axis_ordered[OF len1 col cx cX cY cY _ xle order_refl] unfolding v1 by blast
  have len2: "length (SSD1306_Buffer s2) = 1024" and v2: "lit color s2 = ?v"
    using draws_fields[OF d2] len1 v1 by simp_all
  obtain s3 where l3: "SSD1306_drawLine x y x (y + h') color s2 = Some (LCD_OK, s3)"
    and d3: "draws s2 s3 (\<lambda>p q. uint x \<le> p \<and> p \<le> uint x \<and> uint y \<le> q \<and> q \<le> uint CY) ?v"
    using drawLine_axis_ordered[OF len2 col cx cx cy cY _ order_refl yle] unfolding v2 by blast
  have len3: "length (SSD1306_Buffer s3) = 1024" and v3: "lit color s3 = ?v"
    using draws_fields[OF d3] len2 v2 by simp_all
  obtain s4 where l4: "SSD1306_drawLine (x + w') y (x + w') (y + h') color s3 = Some (LCD_OK, s4)"
    and d4: "draws s3 s4 (\<lambda>p q. uint CX \<le> p \<and> p \<le> uint CX \<and> uint y \<le> q \<and> q \<le> uint CY) ?v"
    using drawLine_axis_ordered[OF len3 col cX cX cy cY _ order_refl yle] unfolding v3 by blast
  have call: "SSD1306_drawRectangle x y w h color s = Some (LCD_OK, s4)"
    using x y l1 l2 l3 l4
    by (simp add: SSD1306_drawRectangle_def Let_def w'_def[symmetric] h'_def[symmetric])
  have d12: "draws s s2 (\<lambda>p q. uint x \<le> p \<and> p \<le> uint CX \<and> (q = uint y \<or> q = uint CY)) ?v"
    using d1 d2 by (rule draws_trans) auto
  have d34: "draws s2 s4 (\<lambda>p q. (p = uint x \<or> p = uint CX) \<and> uint y \<le> q \<and> q \<le> uint CY) ?v"
    using d3 d4 by (rule draws_trans) auto
  have d: "draws s s4 (\<lambda>p q. (uint x \<le> p \<and> p \<le> uint CX \<and> (q = uint y \<or> q = uint CY))
                       \<or> ((p = uint x \<or> p = uint CX) \<and> uint y \<le> q \<and> q \<le> uint CY)) ?v"
    using d12 d34 by (rule draws_trans) auto
  have st: "s4 = s\<lparr>SSD1306_Buffer := SSD1306_Buffer s4\<rparr>" using d by (rule draws_state)
  have l: "length (SSD1306_Buffer s4) = 1024" using d len by (simp add: draws_def)
  have px: "\<forall>p q. pixel_on (SSD1306_Buffer s4) p q =
                 (if (uint x \<le> p \<and> p \<le> min (uint x + uint w) (int SSD1306_WIDTH - 1)
                        \<and> (q = uint y \<or> q = min (uint y + uint h) (int SSD1306_HEIGHT - 1)))
                     \<or> ((p = uint x \<or> p = min (uint x + uint w) (int SSD1306_WIDTH - 1))
                        \<and> uint y \<le> q \<and> q \<le> min (uint y + uint h) (int SSD1306_HEIGHT - 1))
                  then lit color s else pixel_on (SSD1306_Buffer s) p q)"
    using d unfolding draws_def uCX uCY by (simp add: SSD1306_WIDTH_def SSD1306_HEIGHT_def)
  have "SSD1306_drawRectangle x y w h color s = Some (LCD_OK, s\<lparr>SSD1306_Buffer := SSD1306_Buffer s4\<rparr>)"
    using call st by (simp only:)
  then show ?thesis using l px by blast
qed

text \<open>
  Witness for C7: the rectangle at (120, 10) of width 20 and height 5 has its right edge in
  column 127; column 0 of rows 10 and 18, where a pixel of column 128 would land in the
  buffer, stays off.
\<close>

theorem C7_drawRectangle_witness:
  "\<exists>buf. SSD1306_drawRectangle 120 10 20 5 SSD1306_COLOR_WHITE power_on
            = Some (LCD_OK, power_on\<lparr>SSD1306_Buffer := buf\<rparr>)
         \<and> pixel_on buf 120 10 \<and> pixel_on buf 127 10 \<and> pixel_on buf 127 15 \<and> pixel_on buf 120 12
         \<and> \<not> pixel_on buf 125 12 \<and> \<not> pixel_on buf 0 10 \<and> \<not> pixel_on buf 0 18"
proof -
  have len: "length (SSD1306_Buffer power_on) = 1024" by (simp add: power_on_def)
  have col: "SSD1306_COLOR_WHITE = SSD1306_COLOR_BLACK \<or> SSD1306_COLOR_WHITE = SSD1306_COLOR_WHITE"
    by simp
  have x: "unat (120::16 word) < SSD1306_WIDTH" and y: "unat (10::16 word) < SSD1306_HEIGHT"
    by (simp_all add: SSD1306_WIDTH_def SSD1306_HEIGHT_def)
  from C7_drawRectangle [OF len col x y, of 20 5] obtain buf where
    r: "SSD1306_drawRectangle 120 10 20 5 SSD1306_COLOR_WHITE power_on
          = Some (LCD_OK, power_on\<lparr>SSD1306_Buffer := buf\<rparr>)"
    and px: "\<And>p q. pixel_on buf p q =
                 (if (uint (120::16 word) \<le> p \<and> p \<le> min (uint (120::16 word) + uint (20::16 word)) (int SSD1306_WIDTH - 1)
                        \<and> (q = uint (10::16 word) \<or> q = min (uint (10::16 word) + uint (5::16 word)) (int SSD1306_HEIGHT - 1)))
                     \<or> ((p = uint (120::16 word) \<or> p = min (uint (120::16 word) + uint (20::16 word)) (int SSD1306_WIDTH - 1))
                        \<and> uint (10::16 word) \<le> q \<and> q \<le> min (uint (10::16 word) + uint (5::16 word)) (int SSD1306_HEIGHT - 1))
                  then lit SSD1306_COLOR_WHITE power_on else pixel_on (SSD1306_Buffer power_on) p q)"
    by blast
  have w: "lit SSD1306_COLOR_WHITE power_on" by (simp add: lit_def power_on_def)
  have off: "\<not> pixel_on (SSD1306_Buffer power_on) p q" for p q
    by (simp add: power_on_def all_off)
  have "pixel_on buf 120 10 \<and> pixel_on buf 127 10 \<and> pixel_on buf 127 15 \<and> pixel_on buf 120 12
         \<and> \<not> pixel_on buf 125 12 \<and> \<not> pixel_on buf 0 10 \<and> \<not> pixel_on buf 0 18"
    unfolding px using w off by (simp add: SSD1306_WIDTH_def SSD1306_HEIGHT_def)
  then show ?thesis using r by blast
qed

section \<open>Circles\<close>

lemma pixel_on_panel: "pixel_on buf p q \<Longrightarrow> on_panel p q"
  by (simp add: pixel_on_def on_panel_def)

lemma uint_word_of_int_small: "0 \<le> p \<Longrightarrow> p < 128 \<Longrightarrow> uint (word_of_int p :: 16 word) = p"
  by (simp add: uint_word_of_int)

lemma hits_iff:
  "(p = uint (X::16 word) \<and> q = uint (Y::16 word) \<and> unat X < 128 \<and> unat Y < 64)
     \<longleftrightarrow> (on_panel p q \<and> word_of_int p = X \<and> word_of_int q = Y)"
proof
  assume a: "p = uint X \<and> q = uint Y \<and> unat X < 128 \<and> unat Y < 64"
  then have "uint X < 128" "uint Y < 64"
    using uint_less_iff_unat[of X 128] uint_less_iff_unat[of Y 64] by simp_all
  then show "on_panel p q \<and> word_of_int p = X \<and> word_of_int q = Y"
    using a by (simp add: on_panel_def SSD1306_WIDTH_def SSD1306_HEIGHT_def)
next
  assume a: "on_panel p q \<and> word_of_int p = X \<and> word_of_int q = Y"
  then have p: "0 \<le> p" "p < 128" and q: "0 \<le> q" "q < 64"
    by (simp_all add: on_panel_def SSD1306_WIDTH_def SSD1306_HEIGHT_def)
  have ux: "uint X = p" using a p uint_word_of_int_small[of p] by auto
  have uy: "uint Y = q" using a q uint_word_of_int_small[of q] by auto
  have "unat X < 128" using ux p uint_less_iff_unat[of X 128] by simp
  moreover have "unat Y < 64" using uy q uint_less_iff_unat[of Y 64] by simp
  ultimately show "p = uint X \<and> q = uint Y \<and> unat X < 128 \<and> unat Y < 64"
    using ux uy by simp
qed

lemma drawPixel_offset:
  assumes "length (SSD1306_Buffer s) = 1024"
    and "c = SSD1306_COLOR_BLACK \<or> c = SSD1306_COLOR_WHITE"
  shows "draws s (snd (SSD1306_drawPixel (x0 + a) (y0 + b) c s)) (offsets_region x0 y0 {(a, b)}) (lit c s)"
proof -
  have "(p = uint (x0 + a) \<and> q = uint (y0 + b) \<and> unat (x0 + a) < 128 \<and> unat (y0 + b) < 64)
          \<longleftrightarrow> offsets_region x0 y0 {(a, b)} p q" for p q
    unfolding hits_iff offsets_region_def by auto
  then show ?thesis by (rule draws_cong[OF drawPixel_draws[OF assms]])
qed

lemma draws_offsets_trans:
  assumes "draws s t (offsets_region x0 y0 A) v" "draws t u (offsets_region x0 y0 B) v"
  shows "draws s u (offsets_region x0 y0 (A \<union> B)) v"
  using assms by (rule draws_trans) (auto simp: offsets_region_def)


lemma draws_then_pixel:
  assumes d: "draws s t (offsets_region x0 y0 A) (lit c s)"
    and len: "length (SSD1306_Buffer s) = 1024"
    and col: "c = SSD1306_COLOR_BLACK \<or> c = SSD1306_COLOR_WHITE"
  shows "draws s (snd (SSD1306_drawPixel (x0 + a) (y0 + b) c t))
           (offsets_region x0 y0 (A \<union> {(a, b)})) (lit c s)"
proof -
  have lt: "length (SSD1306_Buffer t) = 1024" and v: "lit c t = lit c s"
    using draws_fields[OF d] len by simp_all
  have "draws t (snd (SSD1306_drawPixel (x0 + a) (y0 + b) c t)) (offsets_region x0 y0 {(a, b)}) (lit c s)"
    using drawPixel_offset[OF lt col, of x0 a y0 b] unfolding v .
  with d show ?thesis by (rule draws_offsets_trans)
qed

lemma plot8_draws:
  assumes len: "length (SSD1306_Buffer s) = 1024"
    and col: "c = SSD1306_COLOR_BLACK \<or> c = SSD1306_COLOR_WHITE"
  shows "draws s (plot8 x0 y0 x y c s)
           (offsets_region x0 y0 {(x, y), (- x, y), (x, - y), (- x, - y), (y, x), (- y, x), (y, - x), (- y, - x)})
           (lit c s)"
proof -
  let ?s1 = "snd (SSD1306_drawPixel (x0 + x) (y0 + y) c s)"
  let ?s2 = "snd (SSD1306_drawPixel (x0 + - x) (y0 + y) c ?s1)"
  let ?s3 = "snd (SSD1306_drawPixel (x0 + x) (y0 + - y) c ?s2)"
  let ?s4 = "snd (SSD1306_drawPixel (x0 + - x) (y0 + - y) c ?s3)"
  let ?s5 = "snd (SSD1306_drawPixel (x0 + y) (y0 + x) c ?s4)"
  let ?s6 = "snd (SSD1306_drawPixel (x0 + - y) (y0 + x) c ?s5)"
  let ?s7 = "snd (SSD1306_drawPixel (x0 + y) (y0 + - x) c ?s6)"
  let ?s8 = "snd (SSD1306_drawPixel (x0 + - y) (y0 + - x) c ?s7)"
  have eq: "plot8 x0 y0 x y c s = ?s8" by (simp add: plot8_def Let_def)
  have d1: "draws s ?s1 (offsets_region x0 y0 {(x, y)}) (lit c s)"
    using len col by (rule drawPixel_offset)
  note d2 = draws_then_pixel[OF d1 len col, of "- x" y]
  note d3 = draws_then_pixel[OF d2 len col, of x "- y"]
  note d4 = draws_then_pixel[OF d3 len col, of "- x" "- y"]
  note d5 = draws_then_pixel[OF d4 len col, of y x]
  note d6 = draws_then_pixel[OF d5 len col, of "- y" x]
  note d7 = draws_then_pixel[OF d6 len col, of y "- x"]
  note d8 = draws_then_pixel[OF d7 len col, of "- y" "- x"]
  have "{(x, y)} \<union> {(- x, y)} \<union> {(x, - y)} \<union> {(- x, - y)} \<union> {(y, x)} \<union> {(- y, x)} \<union> {(y, - x)} \<union> {(- y, - x)}
       = {(x, y), (- x, y), (x, - y), (- x, - y), (y, x), (- y, x), (y, - x), (- y, - x)}"
    by blast
  then show ?thesis using d8 unfolding eq by simp
qed

lemma sym8_orbit:
  "sym8 {(x, y), (- x, y), (x, - y), (- x, - y), (y, x), (- y, x), (y, - x), (- y, - x)}"
  unfolding sym8_def by simp

lemma sym8_Un: "sym8 A \<Longrightarrow> sym8 B \<Longrightarrow> sym8 (A \<union> B)"
  unfolding sym8_def by blast

lemma sym8_empty: "sym8 {}"
  by (simp add: sym8_def)

lemma drawCircle_loop_draws:
  assumes "length (SSD1306_Buffer s) = 1024"
    and "c = SSD1306_COLOR_BLACK \<or> c = SSD1306_COLOR_WHITE"
  shows "\<exists>D. sym8 D \<and> draws s (drawCircle_loop x0 y0 x y f ddF_x ddF_y c s) (offsets_region x0 y0 D) (lit c s)"
  using assms
proof (induction x0 y0 x y f ddF_x ddF_y c s rule: drawCircle_loop.induct)
  case (1 x0 y0 x y f ddF_x ddF_y c s)
  show ?case
  proof (cases "sint x < sint y")
    case False
    then have "drawCircle_loop x0 y0 x y f ddF_x ddF_y c s = s"
      by (subst drawCircle_loop.simps) simp
    moreover have "draws s s (offsets_region x0 y0 {}) (lit c s)"
      by (rule draws_refl) (simp add: offsets_region_def)
    ultimately show ?thesis using sym8_empty by metis
  next
    case True
    let ?y' = "if 0 \<le> sint f then y - 1 else y"
    let ?ddF_y' = "if 0 \<le> sint f then ddF_y + 2 else ddF_y"
    let ?f' = "if 0 \<le> sint f then f + ?ddF_y' else f"
    let ?x' = "x + 1"
    let ?ddF_x' = "ddF_x + 2"
    let ?f'' = "?f' + ?ddF_x'"
    let ?s' = "plot8 x0 y0 ?x' ?y' c s"
    have step: "drawCircle_loop x0 y0 x y f ddF_x ddF_y c s =
                drawCircle_loop x0 y0 ?x' ?y' ?f'' ?ddF_x' ?ddF_y' c ?s'"
      using True by (subst drawCircle_loop.simps) (simp add: Let_def)
    have d1: "draws s ?s' (offsets_region x0 y0
        {(?x', ?y'), (- ?x', ?y'), (?x', - ?y'), (- ?x', - ?y'), (?y', ?x'), (- ?y', ?x'), (?y', - ?x'), (- ?y', - ?x')})
        (lit c s)"
      using "1.prems" by (rule plot8_draws)
    have len': "length (SSD1306_Buffer ?s') = 1024" and v: "lit c ?s' = lit c s"
      using draws_fields[OF d1] "1.prems"(1) by simp_all
    obtain D where D: "sym8 D"
      and d2: "draws ?s' (drawCircle_loop x0 y0 ?x' ?y' ?f'' ?ddF_x' ?ddF_y' c ?s') (offsets_region x0 y0 D) (lit c s)"
      using "1.IH"[OF True refl refl refl refl refl refl len' "1.prems"(2)] unfolding v by blast
    have "draws s (drawCircle_loop x0 y0 x y f ddF_x ddF_y c s) (offsets_region x0 y0
        ({(?x', ?y'), (- ?x', ?y'), (?x', - ?y'), (- ?x', - ?y'), (?y', ?x'), (- ?y', ?x'), (?y', - ?x'), (- ?y', - ?x')} \<union> D))
        (lit c s)"
      unfolding step using d1 d2 by (rule draws_offsets_trans)
    moreover have "sym8 ({(?x', ?y'), (- ?x', ?y'), (?x', - ?y'), (- ?x', - ?y'), (?y', ?x'), (- ?y', ?x'), (?y', - ?x'), (- ?y', - ?x')} \<union> D)"
      using sym8_orbit D by (rule sym8_Un)
    ultimately show ?thesis by blast
  qed
qed


lemma sym8_all:
  assumes "sym8 D" "(a, b) \<in> D"
  shows "(- a, b) \<in> D" "(a, - b) \<in> D" "(- a, - b) \<in> D"
    "(b, a) \<in> D" "(- b, a) \<in> D" "(b, - a) \<in> D" "(- b, - a) \<in> D"
  using assms unfolding sym8_def by blast+

lemma drawCircle_draws:
  assumes len: "length (SSD1306_Buffer s) = 1024"
    and col: "c = SSD1306_COLOR_BLACK \<or> c = SSD1306_COLOR_WHITE"
  shows "\<exists>D. sym8 D \<and> (0, r) \<in> D
           \<and> draws s (snd (SSD1306_drawCircle x0 y0 r c s)) (offsets_region x0 y0 D) (lit c s)"
proof -
  let ?s1 = "snd (SSD1306_drawPixel (x0 + 0) (y0 + r) c s)"
  let ?s2 = "snd (SSD1306_drawPixel (x0 + 0) (y0 + - r) c ?s1)"
  let ?s3 = "snd (SSD1306_drawPixel (x0 + r) (y0 + 0) c ?s2)"
  let ?s4 = "snd (SSD1306_drawPixel (x0 + - r) (y0 + 0) c ?s3)"
  let ?D0 = "{(0, r)} \<union> {(0, - r)} \<union> {(r, 0)} \<union> {(- r, 0)}"
  have eq: "snd (SSD1306_drawCircle x0 y0 r c s) = drawCircle_loop x0 y0 0 r (1 - r) 1 (- 2 * r) c ?s4"
    by (simp add: SSD1306_drawCircle_def Let_def)
  have d1: "draws s ?s1 (offsets_region x0 y0 {(0, r)}) (lit c s)"
    using len col by (rule drawPixel_offset)
  note d2 = draws_then_pixel[OF d1 len col, of 0 "- r"]
  note d3 = draws_then_pixel[OF d2 len col, of r 0]
  note d4 = draws_then_pixel[OF d3 len col, of "- r" 0]
  have len4: "length (SSD1306_Buffer ?s4) = 1024" and v: "lit c ?s4 = lit c s"
    using draws_fields[OF d4] len by simp_all
  obtain D where D: "sym8 D"
    and d5: "draws ?s4 (drawCircle_loop x0 y0 0 r (1 - r) 1 (- 2 * r) c ?s4) (offsets_region x0 y0 D) (lit c s)"
    using drawCircle_loop_draws[OF len4 col, of x0 y0 0 r "1 - r" 1 "- 2 * r"] unfolding v by blast
  have "draws s (snd (SSD1306_drawCircle x0 y0 r c s)) (offsets_region x0 y0 (?D0 \<union> D)) (lit c s)"
    unfolding eq using d4 d5 by (rule draws_offsets_trans)
  moreover have "sym8 ?D0" unfolding sym8_def by simp
  then have "sym8 (?D0 \<union> D)" using D by (rule sym8_Un)
  moreover have "(0, r) \<in> ?D0 \<union> D" by simp
  ultimately show ?thesis by blast
qed

lemma offsets_region_centre:
  "offsets_region x0 y0 D (sint x0 + a) (sint y0 + b) \<longleftrightarrow>
     on_panel (sint x0 + a) (sint y0 + b) \<and> (word_of_int a, word_of_int b) \<in> D"
  by (simp add: offsets_region_def)

lemma drawCircle_first_pixel:
  assumes buf: "SSD1306_Buffer s = replicate 1024 0" and inv: "inverted s = 0"
    and on: "on_panel p q" and p: "word_of_int p = x0" and q: "word_of_int q = y0 + r"
  shows "pixel_on (SSD1306_Buffer (snd (SSD1306_drawCircle x0 y0 r SSD1306_COLOR_WHITE s))) p q"
proof -
  have len: "length (SSD1306_Buffer s) = 1024" using buf by simp
  have col: "SSD1306_COLOR_WHITE = SSD1306_COLOR_BLACK \<or> SSD1306_COLOR_WHITE = SSD1306_COLOR_WHITE"
    by simp
  have litw: "lit SSD1306_COLOR_WHITE s" using inv by (simp add: lit_def)
  obtain D where D: "(0, r) \<in> D"
    and d: "draws s (snd (SSD1306_drawCircle x0 y0 r SSD1306_COLOR_WHITE s)) (offsets_region x0 y0 D)
              (lit SSD1306_COLOR_WHITE s)"
    using drawCircle_draws[OF len col] by blast
  have "offsets_region x0 y0 D p q" using on D by (simp add: offsets_region_def p q)
  then show ?thesis using d litw by (simp add: draws_def)
qed

text \<open>
  Claim C9, as amended. On a framebuffer that is all zero, with the inversion flag clear, and
  for every centre \<open>(x0, y0)\<close> and radius \<open>r\<close> (all \<^verbatim>\<open>int16_t\<close>),
  \<^verbatim>\<open>SSD1306_drawCircle(x0, y0, r, WHITE)\<close> returns \<open>LCD_OK\<close> (the loop ends) and the set of
  pixels that are on afterwards is symmetric as far as the panel reaches: whenever the pixel
  at offset \<open>(a, b)\<close> from the centre is on, each of its seven images under the
  reflections \<open>(\<plusminus>a, \<plusminus>b)\<close>, \<open>(\<plusminus>b, \<plusminus>a)\<close> that lies on the panel is on as well. An
  image that falls outside the panel is rejected by \<^verbatim>\<open>SSD1306_drawPixel\<close> and is not a
  pixel of the buffer.
\<close>

theorem C9_drawCircle_symmetric:
  assumes buf: "SSD1306_Buffer s = replicate 1024 0" and inv: "inverted s = 0"
  shows "fst (SSD1306_drawCircle x0 y0 r SSD1306_COLOR_WHITE s) = LCD_OK
       \<and> (\<forall>a b. pixel_on (SSD1306_Buffer (snd (SSD1306_drawCircle x0 y0 r SSD1306_COLOR_WHITE s)))
                    (sint x0 + a) (sint y0 + b) \<longrightarrow>
             (\<forall>(a', b') \<in> {(- a, b), (a, - b), (- a, - b), (b, a), (- b, a), (b, - a), (- b, - a)}.
                 0 \<le> sint x0 + a' \<and> sint x0 + a' < int SSD1306_WIDTH
                 \<and> 0 \<le> sint y0 + b' \<and> sint y0 + b' < int SSD1306_HEIGHT \<longrightarrow>
                 pixel_on (SSD1306_Buffer (snd (SSD1306_drawCircle x0 y0 r SSD1306_COLOR_WHITE s)))
                    (sint x0 + a') (sint y0 + b')))"
proof -
  let ?B = "SSD1306_Buffer (snd (SSD1306_drawCircle x0 y0 r SSD1306_COLOR_WHITE s))"
  have len: "length (SSD1306_Buffer s) = 1024" using buf by simp
  have col: "SSD1306_COLOR_WHITE = SSD1306_COLOR_BLACK \<or> SSD1306_COLOR_WHITE = SSD1306_COLOR_WHITE"
    by simp
  have litw: "lit SSD1306_COLOR_WHITE s" using inv by (simp add: lit_def)
  obtain D where D: "sym8 D"
    and d: "draws s (snd (SSD1306_drawCircle x0 y0 r SSD1306_COLOR_WHITE s)) (offsets_region x0 y0 D)
              (lit SSD1306_COLOR_WHITE s)"
    using drawCircle_draws[OF len col] by blast
  have px: "pixel_on ?B p q \<longleftrightarrow> offsets_region x0 y0 D p q" for p q
    using d litw buf by (simp add: draws_def all_off)
  have sym: "pixel_on ?B (sint x0 + a') (sint y0 + b')"
    if on: "pixel_on ?B (sint x0 + a) (sint y0 + b)"
      and refl: "(word_of_int a', word_of_int b') \<in>
         {(- word_of_int a, word_of_int b), (word_of_int a, - word_of_int b), (- word_of_int a, - word_of_int b),
          (word_of_int b, word_of_int a), (- word_of_int b, word_of_int a), (word_of_int b, - word_of_int a),
          ((- word_of_int b, - word_of_int a) :: 16 word \<times> 16 word)}"
      and panel: "on_panel (sint x0 + a') (sint y0 + b')"
    for a b a' b'
  proof -
    from on have "(word_of_int a, word_of_int b) \<in> D"
      unfolding px offsets_region_centre by simp
    from sym8_all[OF D this]
    have "{(- word_of_int a, word_of_int b), (word_of_int a, - word_of_int b), (- word_of_int a, - word_of_int b),
          (word_of_int b, word_of_int a), (- word_of_int b, word_of_int a), (word_of_int b, - word_of_int a),
          ((- word_of_int b, - word_of_int a) :: 16 word \<times> 16 word)} \<subseteq> D"
      by (simp only: insert_subset empty_subsetI simp_thms)
    with refl have "(word_of_int a', word_of_int b') \<in> D" by (rule rev_subsetD)
    then show ?thesis unfolding px offsets_region_centre using panel by simp
  qed
  have "fst (SSD1306_drawCircle x0 y0 r SSD1306_COLOR_WHITE s) = LCD_OK"
    by (simp add: SSD1306_drawCircle_def Let_def)
  moreover have "\<forall>a b. pixel_on ?B (sint x0 + a) (sint y0 + b) \<longrightarrow>
             (\<forall>(a', b') \<in> {(- a, b), (a, - b), (- a, - b), (b, a), (- b, a), (b, - a), (- b, - a)}.
                 0 \<le> sint x0 + a' \<and> sint x0 + a' < int SSD1306_WIDTH
                 \<and> 0 \<le> sint y0 + b' \<and> sint y0 + b' < int SSD1306_HEIGHT \<longrightarrow>
                 pixel_on ?B (sint x0 + a') (sint y0 + b'))"
  proof (intro allI impI ballI)
    fix a b and ab' :: "int \<times> int"
    assume on: "pixel_on ?B (sint x0 + a) (sint y0 + b)"
      and mem: "ab' \<in> {(- a, b), (a, - b), (- a, - b), (b, a), (- b, a), (b, - a), (- b, - a)}"
    obtain a' b' where ab': "ab' = (a', b')" by (cases ab')
    have refl: "(word_of_int a', word_of_int b') \<in>
         {(- word_of_int a, word_of_int b), (word_of_int a, - word_of_int b), (- word_of_int a, - word_of_int b),
          (word_of_int b, word_of_int a), (- word_of_int b, word_of_int a), (word_of_int b, - word_of_int a),
          ((- word_of_int b, - word_of_int a) :: 16 word \<times> 16 word)}"
      using mem unfolding ab' by auto
    show "case ab' of (a', b') \<Rightarrow>
            0 \<le> sint x0 + a' \<and> sint x0 + a' < int SSD1306_WIDTH
            \<and> 0 \<le> sint y0 + b' \<and> sint y0 + b' < int SSD1306_HEIGHT \<longrightarrow>
            pixel_on ?B (sint x0 + a') (sint y0 + b')"
      unfolding ab' using sym[OF on refl] by (simp add: on_panel_def)
  qed
  ultimately show ?thesis by blast
qed

text \<open>
  Witness for C9 as amended: the circle of radius 3 around (2, 10) is cut by the left edge.
  Its pixel (2, 13) is on, and so are the images (2, 7) and (5, 10), which lie on the panel.
\<close>

theorem C9_drawCircle_symmetric_witness:
  "fst (SSD1306_drawCircle 2 10 3 SSD1306_COLOR_WHITE power_on) = LCD_OK
   \<and> pixel_on (SSD1306_Buffer (snd (SSD1306_drawCircle 2 10 3 SSD1306_COLOR_WHITE power_on))) 2 13
   \<and> pixel_on (SSD1306_Buffer (snd (SSD1306_drawCircle 2 10 3 SSD1306_COLOR_WHITE power_on))) 2 7
   \<and> pixel_on (SSD1306_Buffer (snd (SSD1306_drawCircle 2 10 3 SSD1306_COLOR_WHITE power_on))) 5 10"
proof -
  let ?B = "SSD1306_Buffer (snd (SSD1306_drawCircle 2 10 3 SSD1306_COLOR_WHITE power_on))"
  have buf: "SSD1306_Buffer power_on = replicate 1024 0" and inv: "inverted power_on = 0"
    by (simp_all add: power_on_def)
  have top: "pixel_on ?B (sint (2::16 word) + 0) (sint (10::16 word) + 3)"
    using drawCircle_first_pixel[OF buf inv, of 2 13 2 10 3]
    by (simp add: on_panel_def SSD1306_WIDTH_def SSD1306_HEIGHT_def)
  from C9_drawCircle_symmetric [OF buf inv, of 2 10 3]
  have ok: "fst (SSD1306_drawCircle 2 10 3 SSD1306_COLOR_WHITE power_on) = LCD_OK"
    and sym: "\<forall>(a', b') \<in> {(- 0, 3), (0, - 3), (- 0, - 3), (3, 0), (- 3, 0), (3, - 0), (- 3, - 0)}.
                 0 \<le> sint (2::16 word) + a' \<and> sint (2::16 word) + a' < int SSD1306_WIDTH
                 \<and> 0 \<le> sint (10::16 word) + b' \<and> sint (10::16 word) + b' < int SSD1306_HEIGHT \<longrightarrow>
                 pixel_on ?B (sint (2::16 word) + a') (sint (10::16 word) + b')"
    using top by blast+
  have "pixel_on ?B 2 7 \<and> pixel_on ?B 5 10"
    using sym by (simp add: SSD1306_WIDTH_def SSD1306_HEIGHT_def)
  then show ?thesis using ok top by simp
qed

text \<open>
  Counterexample to C9 as stated: for the circle of radius 1 around (0, 0) the pixel at
  offset (0, 1) is on, but its image at offset (0, -1) is above the panel and is not on.
\<close>

theorem C9_clipped_counterexample:
  "pixel_on (SSD1306_Buffer (snd (SSD1306_drawCircle 0 0 1 SSD1306_COLOR_WHITE power_on))) (0 + 0) (0 + 1)
   \<and> \<not> pixel_on (SSD1306_Buffer (snd (SSD1306_drawCircle 0 0 1 SSD1306_COLOR_WHITE power_on))) (0 + 0) (0 - 1)"
proof -
  have buf: "SSD1306_Buffer power_on = replicate 1024 0" and inv: "inverted power_on = 0"
    by (simp_all add: power_on_def)
  have "pixel_on (SSD1306_Buffer (snd (SSD1306_drawCircle 0 0 1 SSD1306_COLOR_WHITE power_on))) 0 1"
    using drawCircle_first_pixel[OF buf inv, of 0 1 0 0 1]
    by (simp add: on_panel_def SSD1306_WIDTH_def SSD1306_HEIGHT_def)
  then show ?thesis by (simp add: pixel_on_def)
qed

end
